theory Spec2Isabelle
  imports Complex_Main "HOL-Library.Word"
begin

section \<open>FacePay: embedding matcher, quality gate and payment records\<close>

text \<open>
  A shallow embedding of \<^verbatim>\<open>src/services/faceRecognition.js\<close> and
  \<^verbatim>\<open>src/services/paymentService.js\<close>.

  Conventions of the model.
  \<^item> A JavaScript number is a real number. In \<open>compareFaces\<close> the arithmetic is exact;
    the theorems about it relate the values it returns. In the brightness average, where
    a strict comparison at \<open>50\<close> and \<open>200\<close> decides, every operation rounds its exact
    result to the nearest double (\<open>to_double\<close>), and \<^verbatim>\<open>NaN\<close>, which the source can
    produce there on well-typed input, is \<open>None\<close>.
  \<^item> A thrown \<^verbatim>\<open>Error\<close> is the value \<open>Error msg\<close> on the left of a sum; every
    \<^verbatim>\<open>catch\<close> that re-throws with a prefixed message is a branch that prepends the prefix.
  \<^item> A value that may be \<^verbatim>\<open>null\<close> or \<^verbatim>\<open>undefined\<close> is an \<open>option\<close>.
  \<^item> What an external collaborator answers (the payment gateway, the clock, the image
    decoder, the persistence layer's save) is an argument of the operation that asks.
\<close>

subsection \<open>Errors\<close>

datatype error = Error string

fun message :: "error \<Rightarrow> string" where
  "message (Error m) = m"

subsection \<open>The face recognition service\<close>

record service =
  threshold :: real
  confidence :: real

text \<open>
  \<^verbatim>\<open>parseFloat(process.env.X) || d\<close>: the parsed value is \<open>None\<close> when \<^verbatim>\<open>parseFloat\<close>
  gives \<^verbatim>\<open>NaN\<close> (variable unset or not a number); \<^verbatim>\<open>NaN\<close> and \<open>0\<close> are falsy, so
  both select the default.
\<close>

definition or_default :: "real option \<Rightarrow> real \<Rightarrow> real" where
  "or_default parsed d = (case parsed of None \<Rightarrow> d | Some v \<Rightarrow> if v = 0 then d else v)"

definition constructor :: "real option \<Rightarrow> real option \<Rightarrow> service" where
  "constructor envThreshold envConfidence =
     \<lparr>threshold = or_default envThreshold (6 / 10),
      confidence = or_default envConfidence (5 / 10)\<rparr>"

subsection \<open>compareFaces\<close>

record comparison =
  distance :: real
  similarity :: real
  isMatch :: bool

text \<open>
  The loop \<^verbatim>\<open>for (i = 0; i < embedding1.length; i++) sum += (e1[i] - e2[i]) ** 2\<close>.
  It is entered only after the two lengths were found equal, so both lists end together.
\<close>

fun sumSquares :: "real list \<Rightarrow> real list \<Rightarrow> real \<Rightarrow> real" where
  "sumSquares (x # xs) (y # ys) s = sumSquares xs ys (s + (x - y)\<^sup>2)"
| "sumSquares _ _ s = s"

definition compareFaces ::
  "service \<Rightarrow> real list option \<Rightarrow> real list option \<Rightarrow> error + comparison" where
  "compareFaces svc embedding1 embedding2 =
     (case (embedding1, embedding2) of
        (Some e1, Some e2) \<Rightarrow>
          if length e1 \<noteq> length e2
          then Inl (Error (''Face comparison failed: '' @ ''Embeddings must have the same length''))
          else
            let d = sqrt (sumSquares e1 e2 0);
                s = max 0 (1 - d)
            in Inr \<lparr>distance = d, similarity = s, isMatch = (s \<ge> threshold svc)\<rparr>
      | _ \<Rightarrow>
          Inl (Error (''Face comparison failed: '' @ ''Both embeddings are required for comparison'')))"

subsection \<open>findBestMatch\<close>

record storedEmbedding =
  embedding_id :: nat
  embedding :: "real list option"
  stored_confidence :: real

text \<open>The object \<^verbatim>\<open>{...stored, similarity, distance}\<close>.\<close>

record bestMatch = storedEmbedding +
  match_similarity :: real
  match_distance :: real

definition mkBestMatch :: "storedEmbedding \<Rightarrow> comparison \<Rightarrow> bestMatch" where
  "mkBestMatch stored c =
     \<lparr>embedding_id = embedding_id stored, embedding = embedding stored,
      stored_confidence = stored_confidence stored,
      match_similarity = similarity c, match_distance = distance c\<rparr>"

text \<open>
  The \<^verbatim>\<open>for (const stored of storedEmbeddings)\<close> loop, with its two variables
  \<^verbatim>\<open>bestMatch\<close> and \<^verbatim>\<open>bestSimilarity\<close>. A comparison that throws leaves the loop.
\<close>

fun scan ::
  "service \<Rightarrow> real list option \<Rightarrow> storedEmbedding list \<Rightarrow> bestMatch option \<Rightarrow> real
     \<Rightarrow> error + (bestMatch option \<times> real)" where
  "scan svc target [] best bestSimilarity = Inr (best, bestSimilarity)"
| "scan svc target (stored # rest) best bestSimilarity =
     (case compareFaces svc target (embedding stored) of
        Inl e \<Rightarrow> Inl e
      | Inr c \<Rightarrow>
          if similarity c > bestSimilarity
          then scan svc target rest (Some (mkBestMatch stored c)) (similarity c)
          else scan svc target rest best bestSimilarity)"

definition findBestMatch ::
  "service \<Rightarrow> real list option \<Rightarrow> storedEmbedding list \<Rightarrow> error + bestMatch option" where
  "findBestMatch svc targetEmbedding storedEmbeddings =
     (case scan svc targetEmbedding storedEmbeddings None 0 of
        Inl e \<Rightarrow> Inl (Error (''Best match search failed: '' @ message e))
      | Inr (best, _) \<Rightarrow>
          (case best of
             None \<Rightarrow> Inr None
           | Some m \<Rightarrow> if match_similarity m \<ge> threshold svc then Inr (Some m) else Inr None))"

subsection \<open>checkBrightness\<close>

record brightness =
  brightness_value :: "real option"
  isGood :: bool
  brightness_message :: string

text \<open>
  Double arithmetic. An operation on doubles returns the exact result rounded to the
  nearest double, a tie going to the even significand. A double other than zero is
  \<open>m * 2 ^ (e - 52)\<close> with an integer \<open>m\<close> of 53 bits, where \<open>2 ^ e\<close> is the power of two at or
  below its magnitude; below \<open>2 ^ - 1022\<close> the spacing stays \<open>2 ^ - 1074\<close>. Overflow to
  \<^verbatim>\<open>Infinity\<close> is left out: the brightness total of a buffer of \<open>n\<close> bytes is at most
  \<open>85 * n\<close>.
\<close>

definition round_even :: "real \<Rightarrow> int" where
  "round_even x =
     (let f = \<lfloor>x\<rfloor>; d = x - of_int f
      in if d < 1 / 2 then f else if 1 / 2 < d then f + 1 else if even f then f else f + 1)"

definition to_double :: "real \<Rightarrow> real" where
  "to_double x =
     (if x = 0 then 0
      else
        let e = \<lfloor>log 2 \<bar>x\<bar>\<rfloor>;
            u = 2 powr of_int (max (e - 52) (- 1074))
        in of_int (round_even (x / u)) * u)"

text \<open>
  The loop \<^verbatim>\<open>for (i = 0; i < data.length; i += 3) total += (data[i] + data[i+1] + data[i+2]) / 3\<close>
  over the raw bytes, each of its four operations rounded. Reading past the end of the
  buffer gives \<^verbatim>\<open>undefined\<close>, the sum is then \<^verbatim>\<open>NaN\<close> and stays so: the total is
  \<open>None\<close>.
\<close>

fun totalBrightness :: "8 word list \<Rightarrow> real option \<Rightarrow> real option" where
  "totalBrightness [] tot = tot"
| "totalBrightness (r # g # b # rest) tot =
     totalBrightness rest
       (map_option
          (\<lambda>t. to_double (t +
                 to_double (to_double (to_double (real (unat r) + real (unat g)) + real (unat b)) / 3)))
          tot)"
| "totalBrightness _ tot = None"

text \<open>
  \<^verbatim>\<open>totalBrightness / (data.length / 3)\<close>, both divisions rounded; \<open>0 / 0\<close> is
  \<^verbatim>\<open>NaN\<close>.
\<close>

definition averageBrightness :: "8 word list \<Rightarrow> real option" where
  "averageBrightness data =
     (case totalBrightness data (Some 0) of
        None \<Rightarrow> None
      | Some t \<Rightarrow>
          if length data = 0 then None
          else Some (to_double (t / to_double (real (length data) / 3))))"

text \<open>
  The argument is what the image decoder hands back for the buffer: the raw bytes, or
  \<open>None\<close> when decoding throws (the \<^verbatim>\<open>catch\<close> branch). A comparison with
  \<^verbatim>\<open>NaN\<close> is false.
\<close>

definition checkBrightness :: "8 word list option \<Rightarrow> brightness" where
  "checkBrightness raw =
     (case raw of
        None \<Rightarrow>
          \<lparr>brightness_value = Some 0, isGood = False,
           brightness_message = ''Unable to check brightness''\<rparr>
      | Some data \<Rightarrow>
          let avg = averageBrightness data;
              good = (case avg of None \<Rightarrow> False | Some v \<Rightarrow> v > 50 \<and> v < 200)
          in \<lparr>brightness_value = avg, isGood = good,
              brightness_message = (if good then ''Good brightness'' else ''Poor brightness'')\<rparr>)"

subsection \<open>Gateway objects, users, payment records\<close>

record lastPaymentError =
  error_message :: "string option"
  error_code :: "string option"

text \<open>
  What the gateway sends: a payment intent (fields \<^verbatim>\<open>id\<close>, \<^verbatim>\<open>status\<close>,
  \<^verbatim>\<open>last_payment_error\<close>) or a charge (field \<^verbatim>\<open>payment_intent\<close>). The handlers read
  the fields they need from whatever object the event carries, so one record has them all.
\<close>

record gatewayObject =
  object_id :: string
  object_status :: string
  payment_intent :: string
  last_payment_error :: "lastPaymentError option"

record user =
  user_id :: nat
  isActive :: bool
  user_stripeCustomerId :: "string option"
  email :: string
  fullName :: string
  phone :: string

record faceData =
  face_confidence :: real
  face_embeddingDistance :: real
  face_threshold :: real
  face_imageUrl :: "string option"
  face_ipAddress :: "string option"
  face_userAgent :: "string option"

record faceRecognitionData =
  data_confidence :: real
  data_embeddingDistance :: real
  data_threshold :: real
  data_imageUrl :: "string option"

record payment =
  payment_id :: nat
  amount :: int
  currency :: string
  userId :: nat
  stripePaymentIntentId :: string
  stripeCustomerId :: string
  faceRecognitionData :: faceRecognitionData
  paymentMethod :: string
  description :: string
  status :: string
  ipAddress :: string
  userAgent :: string
  processedAt :: "nat option"
  refundedAt :: "nat option"
  failureReason :: "string option"
  failureCode :: "string option"

record store =
  users :: "user list"
  payments :: "payment list"

text \<open>
  The answers of the collaborators to the calls one operation makes: each gateway call
  returns its object or throws, each save returns or throws, \<^verbatim>\<open>new Date()\<close> reads the
  clock, and a new document gets its \<^verbatim>\<open>_id\<close>.
\<close>

record env =
  customers_create :: "error + string"
  paymentIntents_create :: "error + gatewayObject"
  paymentIntents_confirm :: "error + gatewayObject"
  refunds_create :: "error + gatewayObject"
  user_save :: "error option"
  payment_save :: "error option"
  now :: nat
  new_id :: nat

subsection \<open>JavaScript primitives\<close>

text \<open>\<^verbatim>\<open>Math.round\<close>: the nearest integer, a tie going up.\<close>

definition Math_round :: "real \<Rightarrow> int" where
  "Math_round x = \<lfloor>x + 1 / 2\<rfloor>"

definition toLowerChar :: "char \<Rightarrow> char" where
  "toLowerChar c =
     (let n = (of_char c :: nat) in if 65 \<le> n \<and> n \<le> 90 then char_of (n + 32) else c)"

definition toLowerCase :: "string \<Rightarrow> string" where
  "toLowerCase s = map toLowerChar s"

text \<open>\<^verbatim>\<open>x || d\<close> on an optional string: \<^verbatim>\<open>undefined\<close> and the empty string are falsy.\<close>

definition truthy :: "string option \<Rightarrow> bool" where
  "truthy x = (case x of None \<Rightarrow> False | Some s \<Rightarrow> s \<noteq> [])"

definition or_string :: "string option \<Rightarrow> string \<Rightarrow> string" where
  "or_string x d = (case x of None \<Rightarrow> d | Some s \<Rightarrow> if s = [] then d else s)"

definition or_null :: "string option \<Rightarrow> string option" where
  "or_null x = (if truthy x then x else None)"

subsection \<open>The stores\<close>

text \<open>
  Modelled from the spec: the \<^verbatim>\<open>User\<close> and \<^verbatim>\<open>Payment\<close> models
  (\<^verbatim>\<open>src/models/User.js\<close>, \<^verbatim>\<open>src/models/Payment.js\<close>) are missing; the spec describes
  them as external persistence with keyed lookup. \<open>findById\<close> and \<open>findOne\<close> return the
  first document with the key, or \<open>None\<close> for \<^verbatim>\<open>null\<close>; saving a new document appends
  it, saving a loaded document replaces the stored one with the same \<^verbatim>\<open>_id\<close>.
\<close>

definition User_findById :: "store \<Rightarrow> nat \<Rightarrow> user option" where
  "User_findById st uid = find (\<lambda>u. user_id u = uid) (users st)"

definition Payment_findById :: "store \<Rightarrow> nat \<Rightarrow> payment option" where
  "Payment_findById st pid = find (\<lambda>p. payment_id p = pid) (payments st)"

definition Payment_findOne :: "store \<Rightarrow> string \<Rightarrow> payment option" where
  "Payment_findOne st intentId = find (\<lambda>p. stripePaymentIntentId p = intentId) (payments st)"

definition insert_payment :: "payment \<Rightarrow> store \<Rightarrow> store" where
  "insert_payment p st = st\<lparr>payments := payments st @ [p]\<rparr>"

definition update_payment :: "payment \<Rightarrow> store \<Rightarrow> store" where
  "update_payment p st =
     st\<lparr>payments := map (\<lambda>q. if payment_id q = payment_id p then p else q) (payments st)\<rparr>"

definition update_user :: "user \<Rightarrow> store \<Rightarrow> store" where
  "update_user u st =
     st\<lparr>users := map (\<lambda>v. if user_id v = user_id u then u else v) (users st)\<rparr>"

subsection \<open>The payment service\<close>

text \<open>A \<^verbatim>\<open>catch\<close> that throws a new error with the caught message behind a prefix.\<close>

definition rethrow :: "string \<Rightarrow> error \<Rightarrow> error" where
  "rethrow prefix e = Error (prefix @ message e)"

text \<open>
  \<^verbatim>\<open>createPaymentIntent\<close>: the gateway is asked for an intent of
  \<^verbatim>\<open>Math.round(amount * 100)\<close> in the lower-cased currency; what it answers is in the
  environment.
\<close>

definition createPaymentIntent :: "env \<Rightarrow> real \<Rightarrow> string \<Rightarrow> error + gatewayObject" where
  "createPaymentIntent ev amt cur =
     (case paymentIntents_create ev of
        Inl e \<Rightarrow> Inl (rethrow ''Failed to create payment intent: '' e)
      | Inr intent \<Rightarrow> Inr intent)"

record userSummary =
  summary_id :: nat
  summary_name :: string
  summary_email :: string

record paymentResult =
  result_paymentIntent :: gatewayObject
  result_payment :: payment
  result_user :: userSummary

text \<open>
  The first half of \<^verbatim>\<open>processFacePayment\<close>: the gateway customer of the user, created and
  stored on the user when the user has none.
\<close>

definition ensureCustomer :: "env \<Rightarrow> store \<Rightarrow> user \<Rightarrow> (error + string) \<times> store" where
  "ensureCustomer ev st u =
     (case user_stripeCustomerId u of
        Some (c # cs) \<Rightarrow> (Inr (c # cs), st)
      | _ \<Rightarrow>
          (case customers_create ev of
             Inl e \<Rightarrow> (Inl e, st)
           | Inr customerId \<Rightarrow>
               (case user_save ev of
                  Some e \<Rightarrow> (Inl e, st)
                | None \<Rightarrow>
                    (Inr customerId,
                     update_user (u\<lparr>user_stripeCustomerId := Some customerId\<rparr>) st))))"

definition newPayment ::
  "env \<Rightarrow> user \<Rightarrow> real \<Rightarrow> string \<Rightarrow> string \<Rightarrow> faceData \<Rightarrow> string \<Rightarrow> gatewayObject \<Rightarrow> string
     \<Rightarrow> payment" where
  "newPayment ev u amt cur descr fd method intent customerId =
     \<lparr>payment_id = new_id ev,
      amount = Math_round (amt * 100),
      currency = toLowerCase cur,
      userId = user_id u,
      stripePaymentIntentId = object_id intent,
      stripeCustomerId = customerId,
      faceRecognitionData =
        \<lparr>data_confidence = face_confidence fd,
         data_embeddingDistance = face_embeddingDistance fd,
         data_threshold = face_threshold fd,
         data_imageUrl = or_null (face_imageUrl fd)\<rparr>,
      paymentMethod = method,
      description = descr,
      status = ''pending'',
      ipAddress = or_string (face_ipAddress fd) ''unknown'',
      userAgent = or_string (face_userAgent fd) ''unknown'',
      processedAt = None,
      refundedAt = None,
      failureReason = None,
      failureCode = None\<rparr>"

definition processFacePayment ::
  "env \<Rightarrow> store \<Rightarrow> nat \<Rightarrow> real \<Rightarrow> string \<Rightarrow> string \<Rightarrow> faceData \<Rightarrow> string
     \<Rightarrow> (error + paymentResult) \<times> store" where
  "processFacePayment ev st uid amt cur descr fd method =
     (let failed = (\<lambda>e. Inl (rethrow ''Payment processing failed: '' e)) in
      case User_findById st uid of
        None \<Rightarrow> (failed (Error ''User not found or inactive''), st)
      | Some u \<Rightarrow>
          if \<not> isActive u then (failed (Error ''User not found or inactive''), st)
          else
            (case ensureCustomer ev st u of
               (Inl e, st1) \<Rightarrow> (failed e, st1)
             | (Inr customerId, st1) \<Rightarrow>
                 (case createPaymentIntent ev amt cur of
                    Inl e \<Rightarrow> (failed e, st1)
                  | Inr intent \<Rightarrow>
                      let p = newPayment ev u amt cur descr fd method intent customerId in
                      (case payment_save ev of
                         Some e \<Rightarrow> (failed e, st1)
                       | None \<Rightarrow>
                           (Inr \<lparr>result_paymentIntent = intent, result_payment = p,
                                 result_user =
                                   \<lparr>summary_id = user_id u, summary_name = fullName u,
                                    summary_email = email u\<rparr>\<rparr>,
                            insert_payment p st1)))))"

text \<open>
  \<^verbatim>\<open>confirmPayment\<close>: the status of the record becomes the status the gateway
  answers, whatever it is.
\<close>

definition confirmed :: "env \<Rightarrow> payment \<Rightarrow> gatewayObject \<Rightarrow> payment" where
  "confirmed ev p intent =
     (let p1 = p\<lparr>status := object_status intent\<rparr> in
      if object_status intent = ''succeeded'' then p1\<lparr>processedAt := Some (now ev)\<rparr>
      else if object_status intent = ''failed'' then
        p1\<lparr>failureReason :=
              Some (or_string (case last_payment_error intent of
                                 None \<Rightarrow> None | Some l \<Rightarrow> error_message l) ''Payment failed''),
            failureCode :=
              Some (or_string (case last_payment_error intent of
                                 None \<Rightarrow> None | Some l \<Rightarrow> error_code l) ''unknown'')\<rparr>
      else p1)"

definition confirmPayment ::
  "env \<Rightarrow> store \<Rightarrow> string \<Rightarrow> string option \<Rightarrow> (error + payment \<times> gatewayObject) \<times> store" where
  "confirmPayment ev st paymentIntentId paymentMethodId =
     (let failed = (\<lambda>e. Inl (rethrow ''Payment confirmation failed: '' e)) in
      case Payment_findOne st paymentIntentId of
        None \<Rightarrow> (failed (Error ''Payment not found''), st)
      | Some p \<Rightarrow>
          (case paymentIntents_confirm ev of
             Inl e \<Rightarrow> (failed e, st)
           | Inr intent \<Rightarrow>
               let p' = confirmed ev p intent in
               (case payment_save ev of
                  Some e \<Rightarrow> (failed e, st)
                | None \<Rightarrow> (Inr (p', intent), update_payment p' st))))"

definition refundPayment ::
  "env \<Rightarrow> store \<Rightarrow> nat \<Rightarrow> string \<Rightarrow> (error + payment \<times> gatewayObject) \<times> store" where
  "refundPayment ev st paymentId reason =
     (let failed = (\<lambda>e. Inl (rethrow ''Refund failed: '' e)) in
      case Payment_findById st paymentId of
        None \<Rightarrow> (failed (Error ''Payment not found''), st)
      | Some p \<Rightarrow>
          if status p \<noteq> ''succeeded''
          then (failed (Error ''Only successful payments can be refunded''), st)
          else
            (case refunds_create ev of
               Inl e \<Rightarrow> (failed e, st)
             | Inr refund \<Rightarrow>
                 let p' = p\<lparr>status := ''refunded'', failureReason := Some reason,
                            refundedAt := Some (now ev)\<rparr> in
                 (case payment_save ev of
                    Some e \<Rightarrow> (failed e, st)
                  | None \<Rightarrow> (Inr (p', refund), update_payment p' st))))"

subsection \<open>Gateway events\<close>

record event =
  event_type :: string
  event_object :: gatewayObject

text \<open>
  Each handler looks the record up by intent id and does nothing when there is none; a
  save that throws is not caught in the handler.
\<close>

definition handlePaymentSucceeded :: "env \<Rightarrow> store \<Rightarrow> gatewayObject \<Rightarrow> (error + unit) \<times> store" where
  "handlePaymentSucceeded ev st paymentIntent =
     (case Payment_findOne st (object_id paymentIntent) of
        None \<Rightarrow> (Inr (), st)
      | Some p \<Rightarrow>
          let p' = p\<lparr>status := ''succeeded'', processedAt := Some (now ev)\<rparr> in
          (case payment_save ev of
             Some e \<Rightarrow> (Inl e, st)
           | None \<Rightarrow> (Inr (), update_payment p' st)))"

definition handlePaymentFailed :: "env \<Rightarrow> store \<Rightarrow> gatewayObject \<Rightarrow> (error + unit) \<times> store" where
  "handlePaymentFailed ev st paymentIntent =
     (case Payment_findOne st (object_id paymentIntent) of
        None \<Rightarrow> (Inr (), st)
      | Some p \<Rightarrow>
          let p' = p\<lparr>status := ''failed'',
                     failureReason :=
                       Some (or_string (case last_payment_error paymentIntent of
                                          None \<Rightarrow> None | Some l \<Rightarrow> error_message l)
                               ''Payment failed''),
                     failureCode :=
                       Some (or_string (case last_payment_error paymentIntent of
                                          None \<Rightarrow> None | Some l \<Rightarrow> error_code l)
                               ''unknown'')\<rparr> in
          (case payment_save ev of
             Some e \<Rightarrow> (Inl e, st)
           | None \<Rightarrow> (Inr (), update_payment p' st)))"

definition handleChargeRefunded :: "env \<Rightarrow> store \<Rightarrow> gatewayObject \<Rightarrow> (error + unit) \<times> store" where
  "handleChargeRefunded ev st charge =
     (case Payment_findOne st (payment_intent charge) of
        None \<Rightarrow> (Inr (), st)
      | Some p \<Rightarrow>
          let p' = p\<lparr>status := ''refunded'', refundedAt := Some (now ev)\<rparr> in
          (case payment_save ev of
             Some e \<Rightarrow> (Inl e, st)
           | None \<Rightarrow> (Inr (), update_payment p' st)))"

text \<open>\<^verbatim>\<open>handleWebhook\<close> logs and re-throws the same error; other event types are logged only.\<close>

definition handleWebhook :: "env \<Rightarrow> store \<Rightarrow> event \<Rightarrow> (error + unit) \<times> store" where
  "handleWebhook ev st e =
     (if event_type e = ''payment_intent.succeeded'' then
        handlePaymentSucceeded ev st (event_object e)
      else if event_type e = ''payment_intent.payment_failed'' then
        handlePaymentFailed ev st (event_object e)
      else if event_type e = ''charge.refunded'' then
        handleChargeRefunded ev st (event_object e)
      else (Inr (), st))"

subsection \<open>Runs of the payment service\<close>

datatype operation =
    ProcessFacePayment nat real string string faceData string
  | ConfirmPayment string "string option"
  | RefundPayment nat string
  | HandleWebhook event

fun step :: "store \<Rightarrow> env \<times> operation \<Rightarrow> store" where
  "step st (ev, ProcessFacePayment uid amt cur descr fd method) =
     snd (processFacePayment ev st uid amt cur descr fd method)"
| "step st (ev, ConfirmPayment intentId methodId) = snd (confirmPayment ev st intentId methodId)"
| "step st (ev, RefundPayment pid reason) = snd (refundPayment ev st pid reason)"
| "step st (ev, HandleWebhook e) = snd (handleWebhook ev st e)"

definition run :: "store \<Rightarrow> (env \<times> operation) list \<Rightarrow> store" where
  "run st ops = foldl step st ops"

definition statuses :: "string set" where
  "statuses = {''pending'', ''succeeded'', ''failed'', ''refunded''}"

definition known :: "store \<Rightarrow> bool" where
  "known st = (\<forall>p\<in>set (payments st). status p \<in> statuses)"

text \<open>
  A confirm call copies the status the gateway answers. This holds of a step when it is
  not a confirm call, or the gateway throws, or the status it answers is one of the four.
\<close>

fun confirm_status_known :: "env \<times> operation \<Rightarrow> bool" where
  "confirm_status_known (ev, ConfirmPayment intentId methodId) =
     (case paymentIntents_confirm ev of
        Inl e \<Rightarrow> True
      | Inr intent \<Rightarrow> object_status intent \<in> statuses)"
| "confirm_status_known (ev, other) = True"

subsection \<open>A user, a payment and the collaborators' answers, for the examples\<close>

definition alice :: user where
  "alice =
     \<lparr>user_id = 1, isActive = True, user_stripeCustomerId = Some ''cus_1'',
      email = ''alice@example.com'', fullName = ''Alice'', phone = ''555''\<rparr>"

definition evidence :: faceData where
  "evidence =
     \<lparr>face_confidence = 9 / 10, face_embeddingDistance = 3 / 10, face_threshold = 6 / 10,
      face_imageUrl = None, face_ipAddress = None, face_userAgent = None\<rparr>"

definition intent_pi_1 :: "string \<Rightarrow> gatewayObject" where
  "intent_pi_1 s =
     \<lparr>object_id = ''pi_1'', object_status = s, payment_intent = ''pi_1'',
      last_payment_error = None\<rparr>"

text \<open>Every collaborator answers; the clock reads \<open>t\<close>; a confirmed intent has status \<open>s\<close>.\<close>

definition answers :: "nat \<Rightarrow> string \<Rightarrow> env" where
  "answers t s =
     \<lparr>customers_create = Inr ''cus_1'',
      paymentIntents_create = Inr (intent_pi_1 ''requires_payment_method''),
      paymentIntents_confirm = Inr (intent_pi_1 s),
      refunds_create = Inr (intent_pi_1 ''succeeded''),
      user_save = None, payment_save = None, now = t, new_id = 7\<rparr>"

definition coffee :: payment where
  "coffee = newPayment (answers 0 []) alice (255 / 10) ''usd'' ''Coffee'' evidence ''card''
              (intent_pi_1 ''requires_payment_method'') ''cus_1''"

definition shop :: store where
  "shop = \<lparr>users = [alice], payments = [coffee]\<rparr>"

definition succeeded_event :: event where
  "succeeded_event =
     \<lparr>event_type = ''payment_intent.succeeded'', event_object = intent_pi_1 ''succeeded''\<rparr>"

definition refunded_event :: event where
  "refunded_event =
     \<lparr>event_type = ''charge.refunded'', event_object = intent_pi_1 ''succeeded''\<rparr>"

section \<open>The embedding matcher\<close>

lemma compareFaces_Inl_iff:
  "(\<exists>e. compareFaces svc a b = Inl e) \<longleftrightarrow>
     (a = None \<or> b = None \<or> length (the a) \<noteq> length (the b))"
  by (cases a; cases b) (auto simp: compareFaces_def Let_def)

lemma compareFaces_Inr_isMatch:
  "compareFaces svc a b = Inr c \<Longrightarrow> isMatch c = (threshold svc \<le> similarity c)"
  by (cases a; cases b) (auto simp: compareFaces_def Let_def split: if_splits)

lemma default_threshold: "threshold (constructor None None) = 6 / 10"
  by (simp add: constructor_def or_default_def)

text \<open>
  Two empty vectors are not rejected: an empty array is truthy and the two lengths are
  equal, so the comparison runs and, under the default threshold, reports a match.
\<close>
theorem compareFaces_empty_vectors_match:
  "compareFaces (constructor None None) (Some []) (Some []) =
     Inr \<lparr>distance = 0, similarity = 1, isMatch = True\<rparr>"
  by (simp add: compareFaces_def constructor_def or_default_def)

text \<open>
  Claim C4, amended. \<open>compareFaces\<close> fails with an error, and so returns no verdict,
  exactly when one of the vectors is missing (\<^verbatim>\<open>null\<close> or \<^verbatim>\<open>undefined\<close>) or the two
  lengths differ. An empty vector is rejected only against a non-empty one.
\<close>
theorem compareFaces_fails_iff:
  "(\<exists>e. compareFaces svc a b = Inl e) \<longleftrightarrow>
     (a = None \<or> b = None \<or> (\<exists>x y. a = Some x \<and> b = Some y \<and> length x \<noteq> length y))"
  using compareFaces_Inl_iff [of svc a b] by (cases a; cases b) auto

theorem compareFaces_fails_iff_witness:
  "(\<exists>e. compareFaces (constructor None None) (Some [1, 2]) (Some [1]) = Inl e) \<and>
   (\<exists>e. compareFaces (constructor None None) None (Some [1]) = Inl e) \<and>
   (\<exists>e. compareFaces (constructor None None) (Some []) (Some [1]) = Inl e)"
  using compareFaces_fails_iff [of "constructor None None" "Some [1, 2]" "Some [1]"]
    compareFaces_fails_iff [of "constructor None None" None "Some [1]"]
    compareFaces_fails_iff [of "constructor None None" "Some []" "Some [1]"]
  by simp

text \<open>
  Claim C8. Whenever \<open>compareFaces\<close> returns a verdict, \<open>isMatch\<close> holds exactly when the
  similarity is at least the threshold; with the default service (threshold \<open>0.6\<close>) a
  similarity of exactly \<open>0.6\<close> is a match and any smaller one is not.
\<close>
theorem compareFaces_isMatch_inclusive:
  "(compareFaces svc a b = Inr c \<longrightarrow> (isMatch c \<longleftrightarrow> threshold svc \<le> similarity c)) \<and>
   (compareFaces (constructor None None) a b = Inr c \<longrightarrow>
      (isMatch c \<longleftrightarrow> 6 / 10 \<le> similarity c))"
  using compareFaces_Inr_isMatch [of svc a b c]
    compareFaces_Inr_isMatch [of "constructor None None" a b c]
  by (simp add: default_threshold)

lemma sqrt_4_25: "sqrt (4 / 25) = 2 / 5"
  by (rule real_sqrt_unique) (simp_all add: power2_eq_square)

lemma sqrt_1_4: "sqrt (1 / 4) = 1 / 2"
  by (rule real_sqrt_unique) (simp_all add: power2_eq_square)

lemma cmp_at: "compareFaces (constructor None None) (Some [4 / 10]) (Some [0]) =
     Inr \<lparr>distance = 4 / 10, similarity = 6 / 10, isMatch = True\<rparr>"
  by (simp add: compareFaces_def constructor_def or_default_def power2_eq_square sqrt_4_25 Let_def)

lemma cmp_below: "compareFaces (constructor None None) (Some [5 / 10]) (Some [0]) =
     Inr \<lparr>distance = 5 / 10, similarity = 5 / 10, isMatch = False\<rparr>"
  by (simp add: compareFaces_def constructor_def or_default_def power2_eq_square sqrt_1_4 Let_def)

theorem compareFaces_isMatch_inclusive_witness:
  "compareFaces (constructor None None) (Some [4 / 10]) (Some [0]) =
     Inr \<lparr>distance = 4 / 10, similarity = 6 / 10, isMatch = True\<rparr> \<and>
   compareFaces (constructor None None) (Some [5 / 10]) (Some [0]) =
     Inr \<lparr>distance = 5 / 10, similarity = 5 / 10, isMatch = False\<rparr> \<and>
   (isMatch \<lparr>distance = 4 / 10, similarity = 6 / 10, isMatch = True\<rparr> \<longleftrightarrow>
      6 / 10 \<le> similarity \<lparr>distance = 4 / 10, similarity = 6 / 10, isMatch = True\<rparr>)"
proof -
  from compareFaces_isMatch_inclusive [of "constructor None None" "Some [4 / 10]" "Some [0]"
      "\<lparr>distance = 4 / 10, similarity = 6 / 10, isMatch = True\<rparr>"] cmp_at
  have "isMatch \<lparr>distance = 4 / 10, similarity = 6 / 10, isMatch = True\<rparr> \<longleftrightarrow>
      6 / 10 \<le> similarity \<lparr>distance = 4 / 10, similarity = 6 / 10, isMatch = True\<rparr>"
    by blast
  with cmp_at cmp_below show ?thesis by (intro conjI)
qed

subsection \<open>scan\<close>

lemma scan_Inl:
  "s \<in> set cs \<Longrightarrow> compareFaces svc t (embedding s) = Inl e \<Longrightarrow>
     \<exists>e'. scan svc t cs best bs = Inl e' \<and>
       (\<exists>s'\<in>set cs. compareFaces svc t (embedding s') = Inl e')"
proof (induction cs arbitrary: best bs)
  case Nil
  then show ?case by simp
next
  case (Cons x xs)
  show ?case
  proof (cases "compareFaces svc t (embedding x)")
    case (Inl e0)
    then show ?thesis by auto
  next
    case (Inr c)
    with Cons.prems have mem: "s \<in> set xs" by auto
    from Cons.IH [OF mem Cons.prems(2)] Inr show ?thesis by auto
  qed
qed

lemma scan_total:
  "(\<forall>s\<in>set cs. \<exists>c. compareFaces svc t (embedding s) = Inr c) \<Longrightarrow>
     \<exists>r. scan svc t cs best bs = Inr r"
  by (induction cs arbitrary: best bs) (auto split: sum.splits)

lemma scan_shape:
  "scan svc t cs best bs = Inr (best', bs') \<Longrightarrow>
     (best' = best \<and> bs' = bs \<and>
        (\<forall>s\<in>set cs. \<exists>c. compareFaces svc t (embedding s) = Inr c \<and> similarity c \<le> bs))
     \<or> (\<exists>pre s post c. cs = pre @ s # post \<and> compareFaces svc t (embedding s) = Inr c \<and>
           best' = Some (mkBestMatch s c) \<and> bs' = similarity c \<and> bs < similarity c \<and>
           (\<forall>s'\<in>set pre. \<exists>c'. compareFaces svc t (embedding s') = Inr c' \<and>
               similarity c' < similarity c) \<and>
           (\<forall>s'\<in>set post. \<exists>c'. compareFaces svc t (embedding s') = Inr c' \<and>
               similarity c' \<le> similarity c))"
proof (induction cs arbitrary: best bs)
  case Nil
  then show ?case by simp
next
  case (Cons x xs)
  from Cons.prems obtain cx where cx: "compareFaces svc t (embedding x) = Inr cx"
    by (cases "compareFaces svc t (embedding x)") auto
  show ?case
  proof (cases "similarity cx > bs")
    case True
    with Cons.prems cx
    have run: "scan svc t xs (Some (mkBestMatch x cx)) (similarity cx) = Inr (best', bs')"
      by simp
    from Cons.IH [OF run] show ?thesis
    proof (elim disjE exE conjE)
      assume "best' = Some (mkBestMatch x cx)" "bs' = similarity cx"
        "\<forall>s\<in>set xs. \<exists>c. compareFaces svc t (embedding s) = Inr c \<and> similarity c \<le> similarity cx"
      with cx True have
        "x # xs = [] @ x # xs \<and> compareFaces svc t (embedding x) = Inr cx \<and>
           best' = Some (mkBestMatch x cx) \<and> bs' = similarity cx \<and> bs < similarity cx \<and>
           (\<forall>s'\<in>set []. \<exists>c'. compareFaces svc t (embedding s') = Inr c' \<and>
               similarity c' < similarity cx) \<and>
           (\<forall>s'\<in>set xs. \<exists>c'. compareFaces svc t (embedding s') = Inr c' \<and>
               similarity c' \<le> similarity cx)"
        by simp
      then show ?thesis by blast
    next
      fix pre s post c
      assume h: "xs = pre @ s # post" "compareFaces svc t (embedding s) = Inr c"
        "best' = Some (mkBestMatch s c)" "bs' = similarity c" "similarity cx < similarity c"
        "\<forall>s'\<in>set pre. \<exists>c'. compareFaces svc t (embedding s') = Inr c' \<and>
               similarity c' < similarity c"
        "\<forall>s'\<in>set post. \<exists>c'. compareFaces svc t (embedding s') = Inr c' \<and>
               similarity c' \<le> similarity c"
      with cx True have
        "x # xs = (x # pre) @ s # post \<and> compareFaces svc t (embedding s) = Inr c \<and>
           best' = Some (mkBestMatch s c) \<and> bs' = similarity c \<and> bs < similarity c \<and>
           (\<forall>s'\<in>set (x # pre). \<exists>c'. compareFaces svc t (embedding s') = Inr c' \<and>
               similarity c' < similarity c) \<and>
           (\<forall>s'\<in>set post. \<exists>c'. compareFaces svc t (embedding s') = Inr c' \<and>
               similarity c' \<le> similarity c)"
        by simp
      then show ?thesis by blast
    qed
  next
    case False
    with Cons.prems cx
    have run: "scan svc t xs best bs = Inr (best', bs')"
      by simp
    from Cons.IH [OF run] show ?thesis
    proof (elim disjE exE conjE)
      assume "best' = best" "bs' = bs"
        "\<forall>s\<in>set xs. \<exists>c. compareFaces svc t (embedding s) = Inr c \<and> similarity c \<le> bs"
      with cx False show ?thesis by auto
    next
      fix pre s post c
      assume h: "xs = pre @ s # post" "compareFaces svc t (embedding s) = Inr c"
        "best' = Some (mkBestMatch s c)" "bs' = similarity c" "bs < similarity c"
        "\<forall>s'\<in>set pre. \<exists>c'. compareFaces svc t (embedding s') = Inr c' \<and>
               similarity c' < similarity c"
        "\<forall>s'\<in>set post. \<exists>c'. compareFaces svc t (embedding s') = Inr c' \<and>
               similarity c' \<le> similarity c"
      with cx False have
        "x # xs = (x # pre) @ s # post \<and> compareFaces svc t (embedding s) = Inr c \<and>
           best' = Some (mkBestMatch s c) \<and> bs' = similarity c \<and> bs < similarity c \<and>
           (\<forall>s'\<in>set (x # pre). \<exists>c'. compareFaces svc t (embedding s') = Inr c' \<and>
               similarity c' < similarity c) \<and>
           (\<forall>s'\<in>set post. \<exists>c'. compareFaces svc t (embedding s') = Inr c' \<and>
               similarity c' \<le> similarity c)"
        by simp
      then show ?thesis by blast
    qed
  qed
qed

lemma findBestMatch_Some:
  assumes "findBestMatch svc t cs = Inr (Some m)"
  shows "threshold svc \<le> match_similarity m \<and>
    (\<exists>pre s post c. cs = pre @ s # post \<and> compareFaces svc t (embedding s) = Inr c \<and>
       m = mkBestMatch s c \<and> 0 < similarity c \<and>
       (\<forall>s'\<in>set pre. \<exists>c'. compareFaces svc t (embedding s') = Inr c' \<and>
           similarity c' < similarity c) \<and>
       (\<forall>s'\<in>set post. \<exists>c'. compareFaces svc t (embedding s') = Inr c' \<and>
           similarity c' \<le> similarity c))"
proof -
  from assms obtain bs' where run: "scan svc t cs None 0 = Inr (Some m, bs')"
    and thr: "threshold svc \<le> match_similarity m"
    by (auto simp: findBestMatch_def split: sum.splits option.splits if_splits)
  from scan_shape [OF run] thr show ?thesis by auto
qed


lemma compareFaces_Inl_message:
  "compareFaces svc a b = Inl e \<Longrightarrow> \<exists>msg. e = Error (''Face comparison failed: '' @ msg)"
  by (cases a; cases b) (auto simp: compareFaces_def Let_def split: if_splits)

lemma compareFaces_probe_zero:
  "compareFaces svc (Some [0]) (Some [2 / 5]) =
     Inr \<lparr>distance = 2 / 5, similarity = 3 / 5, isMatch = (threshold svc \<le> 3 / 5)\<rparr>"
  "compareFaces svc (Some [0]) (Some [1 / 2]) =
     Inr \<lparr>distance = 1 / 2, similarity = 1 / 2, isMatch = (threshold svc \<le> 1 / 2)\<rparr>"
  by (simp_all add: compareFaces_def power2_eq_square sqrt_4_25 sqrt_1_4 Let_def)

text \<open>
  Claim C5. \<open>findBestMatch\<close> returns \<^verbatim>\<open>null\<close> for an empty candidate list; a candidate
  it returns is one of the candidates, carries the similarity \<open>compareFaces\<close> computed for
  it, and that similarity is at least the threshold; when every candidate is below the
  threshold the answer is \<^verbatim>\<open>null\<close>, whichever of them is the closest.
\<close>
theorem findBestMatch_never_below_threshold:
  "findBestMatch svc t [] = Inr None \<and>
   (\<forall>m. findBestMatch svc t cs = Inr (Some m) \<longrightarrow>
      threshold svc \<le> match_similarity m \<and>
      (\<exists>s\<in>set cs. \<exists>c. compareFaces svc t (embedding s) = Inr c \<and> m = mkBestMatch s c \<and>
          match_similarity m = similarity c)) \<and>
   ((\<forall>s\<in>set cs. \<exists>c. compareFaces svc t (embedding s) = Inr c \<and> similarity c < threshold svc)
      \<longrightarrow> findBestMatch svc t cs = Inr None)"
proof (intro conjI allI impI)
  show "findBestMatch svc t [] = Inr None"
    by (simp add: findBestMatch_def)
next
  fix m assume "findBestMatch svc t cs = Inr (Some m)"
  from findBestMatch_Some [OF this] show "threshold svc \<le> match_similarity m" by simp
next
  fix m assume "findBestMatch svc t cs = Inr (Some m)"
  from findBestMatch_Some [OF this]
  obtain pre s post c where "cs = pre @ s # post" "compareFaces svc t (embedding s) = Inr c"
    "m = mkBestMatch s c"
    by blast
  then have "s \<in> set cs \<and> compareFaces svc t (embedding s) = Inr c \<and> m = mkBestMatch s c \<and>
      match_similarity m = similarity c"
    by (simp add: mkBestMatch_def)
  then show "\<exists>s\<in>set cs. \<exists>c. compareFaces svc t (embedding s) = Inr c \<and> m = mkBestMatch s c \<and>
      match_similarity m = similarity c"
    by blast
next
  assume below: "\<forall>s\<in>set cs. \<exists>c. compareFaces svc t (embedding s) = Inr c \<and>
      similarity c < threshold svc"
  then have "\<forall>s\<in>set cs. \<exists>c. compareFaces svc t (embedding s) = Inr c" by blast
  from scan_total [OF this] obtain r where "scan svc t cs None 0 = Inr r" by blast
  then have "\<exists>x. findBestMatch svc t cs = Inr x"
    by (cases r) (simp add: findBestMatch_def split: option.splits)
  then obtain x where res: "findBestMatch svc t cs = Inr x" by blast
  show "findBestMatch svc t cs = Inr None"
  proof (cases x)
    case None
    with res show ?thesis by simp
  next
    case (Some m)
    with res have some: "findBestMatch svc t cs = Inr (Some m)" by simp
    from findBestMatch_Some [OF some]
    obtain pre s post c where thr: "threshold svc \<le> match_similarity m"
      and h: "cs = pre @ s # post" "compareFaces svc t (embedding s) = Inr c"
        "m = mkBestMatch s c"
      by blast
    from h have "s \<in> set cs" by simp
    with below h(2) have "similarity c < threshold svc" by fastforce
    with thr h(3) show ?thesis by (simp add: mkBestMatch_def)
  qed
qed

theorem findBestMatch_never_below_threshold_witness:
  "findBestMatch (constructor None None) (Some [0])
      [\<lparr>embedding_id = 1, embedding = Some [1 / 2], stored_confidence = 1\<rparr>] = Inr None \<and>
   findBestMatch (constructor None None) (Some [0]) [] = Inr None \<and>
   findBestMatch (constructor None None) (Some [0])
      [\<lparr>embedding_id = 1, embedding = Some [1 / 2], stored_confidence = 1\<rparr>,
       \<lparr>embedding_id = 2, embedding = Some [2 / 5], stored_confidence = 1\<rparr>] =
     Inr (Some \<lparr>embedding_id = 2, embedding = Some [2 / 5], stored_confidence = 1,
                match_similarity = 3 / 5, match_distance = 2 / 5\<rparr>) \<and>
   threshold (constructor None None) \<le> 3 / 5"
proof -
  let ?svc = "constructor None None"
  let ?a = "\<lparr>embedding_id = 1, embedding = Some [1 / 2], stored_confidence = 1\<rparr>"
  let ?b = "\<lparr>embedding_id = 2, embedding = Some [2 / 5], stored_confidence = 1\<rparr>"
  let ?m = "\<lparr>embedding_id = 2, embedding = Some [2 / 5], stored_confidence = 1,
             match_similarity = 3 / 5, match_distance = 2 / 5\<rparr>"
  have below: "\<forall>s\<in>set [?a]. \<exists>c. compareFaces ?svc (Some [0]) (embedding s) = Inr c \<and>
      similarity c < threshold ?svc"
    by (simp add: compareFaces_probe_zero default_threshold)
  have found: "findBestMatch ?svc (Some [0]) [?a, ?b] = Inr (Some ?m)"
    by (simp add: findBestMatch_def compareFaces_probe_zero default_threshold mkBestMatch_def)
  from findBestMatch_never_below_threshold [of ?svc "Some [0]" "[?a]"] below
  have 1: "findBestMatch ?svc (Some [0]) [?a] = Inr None" by blast
  from findBestMatch_never_below_threshold [of ?svc "Some [0]" "[?a, ?b]"] found
  have 2: "threshold ?svc \<le> match_similarity ?m" by blast
  from findBestMatch_never_below_threshold [of ?svc "Some [0]" "[]"]
  have 3: "findBestMatch ?svc (Some [0]) [] = Inr None" by blast
  from 1 2 3 found show ?thesis by simp
qed

lemma scan_keeps:
  "\<forall>s\<in>set cs. \<exists>c. compareFaces svc t (embedding s) = Inr c \<and> similarity c \<le> bs \<Longrightarrow>
     scan svc t cs best bs = Inr (best, bs)"
  by (induction cs) (auto split: sum.splits)

lemma scan_first_greatest:
  assumes "compareFaces svc t (embedding s) = Inr c" and "bs < similarity c"
    and "\<forall>s'\<in>set pre. \<exists>c'. compareFaces svc t (embedding s') = Inr c' \<and>
           similarity c' < similarity c"
    and "\<forall>s'\<in>set post. \<exists>c'. compareFaces svc t (embedding s') = Inr c' \<and>
           similarity c' \<le> similarity c"
  shows "scan svc t (pre @ s # post) best bs = Inr (Some (mkBestMatch s c), similarity c)"
  using assms(2,3)
proof (induction pre arbitrary: best bs)
  case Nil
  with assms(1) scan_keeps [OF assms(4)] show ?case by simp
next
  case (Cons x pre)
  from Cons.prems(2) obtain cx where cx: "compareFaces svc t (embedding x) = Inr cx"
    and less: "similarity cx < similarity c"
    by auto
  from Cons.prems(2) have rest: "\<forall>s'\<in>set pre. \<exists>c'. compareFaces svc t (embedding s') = Inr c' \<and>
           similarity c' < similarity c"
    by simp
  show ?case
  proof (cases "similarity cx > bs")
    case True
    with cx Cons.IH [OF less rest] show ?thesis by simp
  next
    case False
    with cx Cons.IH [OF Cons.prems(1) rest] show ?thesis by simp
  qed
qed

lemma findBestMatch_returns_first_greatest:
  assumes "compareFaces svc t (embedding s) = Inr c" and "0 < similarity c"
    and "threshold svc \<le> similarity c"
    and "\<forall>s'\<in>set pre. \<exists>c'. compareFaces svc t (embedding s') = Inr c' \<and>
           similarity c' < similarity c"
    and "\<forall>s'\<in>set post. \<exists>c'. compareFaces svc t (embedding s') = Inr c' \<and>
           similarity c' \<le> similarity c"
  shows "findBestMatch svc t (pre @ s # post) = Inr (Some (mkBestMatch s c))"
  using scan_first_greatest [OF assms(1,2,4,5), of None] assms(3)
  by (simp add: findBestMatch_def mkBestMatch_def)

text \<open>
  Claim C7. The candidate \<open>findBestMatch\<close> returns has the greatest similarity of all
  candidates, and every candidate before it in the list has a strictly smaller one: among
  candidates that tie for the greatest similarity the first is returned. Conversely the
  first candidate of greatest similarity is returned whenever that similarity is positive
  and at least the threshold.
\<close>
theorem findBestMatch_first_of_greatest:
  "(findBestMatch svc t cs = Inr (Some m) \<longrightarrow>
      (\<exists>pre s post c. cs = pre @ s # post \<and> compareFaces svc t (embedding s) = Inr c \<and>
         m = mkBestMatch s c \<and>
         (\<forall>s'\<in>set pre. \<exists>c'. compareFaces svc t (embedding s') = Inr c' \<and>
             similarity c' < similarity c) \<and>
         (\<forall>s'\<in>set post. \<exists>c'. compareFaces svc t (embedding s') = Inr c' \<and>
             similarity c' \<le> similarity c))) \<and>
   (compareFaces svc t (embedding s0) = Inr c0 \<and> 0 < similarity c0 \<and>
    threshold svc \<le> similarity c0 \<and>
    (\<forall>s'\<in>set pre0. \<exists>c'. compareFaces svc t (embedding s') = Inr c' \<and>
        similarity c' < similarity c0) \<and>
    (\<forall>s'\<in>set post0. \<exists>c'. compareFaces svc t (embedding s') = Inr c' \<and>
        similarity c' \<le> similarity c0) \<longrightarrow>
      findBestMatch svc t (pre0 @ s0 # post0) = Inr (Some (mkBestMatch s0 c0)))"
proof (intro conjI impI)
  assume "findBestMatch svc t cs = Inr (Some m)"
  from findBestMatch_Some [OF this]
  show "\<exists>pre s post c. cs = pre @ s # post \<and> compareFaces svc t (embedding s) = Inr c \<and>
         m = mkBestMatch s c \<and>
         (\<forall>s'\<in>set pre. \<exists>c'. compareFaces svc t (embedding s') = Inr c' \<and>
             similarity c' < similarity c) \<and>
         (\<forall>s'\<in>set post. \<exists>c'. compareFaces svc t (embedding s') = Inr c' \<and>
             similarity c' \<le> similarity c)"
    by blast
next
  assume h: "compareFaces svc t (embedding s0) = Inr c0 \<and> 0 < similarity c0 \<and>
    threshold svc \<le> similarity c0 \<and>
    (\<forall>s'\<in>set pre0. \<exists>c'. compareFaces svc t (embedding s') = Inr c' \<and>
        similarity c' < similarity c0) \<and>
    (\<forall>s'\<in>set post0. \<exists>c'. compareFaces svc t (embedding s') = Inr c' \<and>
        similarity c' \<le> similarity c0)"
  then show "findBestMatch svc t (pre0 @ s0 # post0) = Inr (Some (mkBestMatch s0 c0))"
    using findBestMatch_returns_first_greatest [of svc t s0 c0 pre0 post0] by blast
qed

theorem findBestMatch_first_of_greatest_witness:
  "findBestMatch (constructor None None) (Some [0])
      [\<lparr>embedding_id = 1, embedding = Some [1 / 2], stored_confidence = 1\<rparr>,
       \<lparr>embedding_id = 2, embedding = Some [2 / 5], stored_confidence = 1\<rparr>,
       \<lparr>embedding_id = 3, embedding = Some [2 / 5], stored_confidence = 1\<rparr>] =
     Inr (Some \<lparr>embedding_id = 2, embedding = Some [2 / 5], stored_confidence = 1,
                match_similarity = 3 / 5, match_distance = 2 / 5\<rparr>) \<and>
   (\<exists>pre s post c.
       [\<lparr>embedding_id = 1, embedding = Some [1 / 2], stored_confidence = 1\<rparr>,
        \<lparr>embedding_id = 2, embedding = Some [2 / 5], stored_confidence = 1\<rparr>,
        \<lparr>embedding_id = 3, embedding = Some [2 / 5], stored_confidence = 1\<rparr>] = pre @ s # post \<and>
       compareFaces (constructor None None) (Some [0]) (embedding s) = Inr c \<and>
       \<lparr>embedding_id = 2, embedding = Some [2 / 5], stored_confidence = 1,
         match_similarity = 3 / 5, match_distance = 2 / 5\<rparr> = mkBestMatch s c \<and>
       (\<forall>s'\<in>set pre. \<exists>c'. compareFaces (constructor None None) (Some [0]) (embedding s') = Inr c' \<and>
           similarity c' < similarity c) \<and>
       (\<forall>s'\<in>set post. \<exists>c'. compareFaces (constructor None None) (Some [0]) (embedding s') = Inr c' \<and>
           similarity c' \<le> similarity c))"
proof -
  let ?svc = "constructor None None"
  let ?a = "\<lparr>embedding_id = 1, embedding = Some [1 / 2], stored_confidence = 1\<rparr>"
  let ?b = "\<lparr>embedding_id = 2, embedding = Some [2 / 5], stored_confidence = 1\<rparr>"
  let ?c = "\<lparr>embedding_id = 3, embedding = Some [2 / 5], stored_confidence = 1\<rparr>"
  let ?cb = "\<lparr>distance = 2 / 5, similarity = 3 / 5, isMatch = True\<rparr>"
  let ?m = "\<lparr>embedding_id = 2, embedding = Some [2 / 5], stored_confidence = 1,
             match_similarity = 3 / 5, match_distance = 2 / 5\<rparr>"
  have hyp: "compareFaces ?svc (Some [0]) (embedding ?b) = Inr ?cb \<and> 0 < similarity ?cb \<and>
    threshold ?svc \<le> similarity ?cb \<and>
    (\<forall>s'\<in>set [?a]. \<exists>c'. compareFaces ?svc (Some [0]) (embedding s') = Inr c' \<and>
        similarity c' < similarity ?cb) \<and>
    (\<forall>s'\<in>set [?c]. \<exists>c'. compareFaces ?svc (Some [0]) (embedding s') = Inr c' \<and>
        similarity c' \<le> similarity ?cb)"
    by (simp add: compareFaces_probe_zero default_threshold)
  have mk: "mkBestMatch ?b ?cb = ?m" by (simp add: mkBestMatch_def)
  from findBestMatch_first_of_greatest [of ?svc "Some [0]" "[?a, ?b, ?c]" ?m ?b ?cb "[?a]" "[?c]"] hyp
  have found: "findBestMatch ?svc (Some [0]) ([?a] @ ?b # [?c]) = Inr (Some (mkBestMatch ?b ?cb))"
    by blast
  then have found': "findBestMatch ?svc (Some [0]) [?a, ?b, ?c] = Inr (Some ?m)"
    by (simp only: mk append.simps)
  from findBestMatch_first_of_greatest [of ?svc "Some [0]" "[?a, ?b, ?c]" ?m ?b ?cb "[?a]" "[?c]"] found'
  have "\<exists>pre s post c. [?a, ?b, ?c] = pre @ s # post \<and>
       compareFaces ?svc (Some [0]) (embedding s) = Inr c \<and> ?m = mkBestMatch s c \<and>
       (\<forall>s'\<in>set pre. \<exists>c'. compareFaces ?svc (Some [0]) (embedding s') = Inr c' \<and>
           similarity c' < similarity c) \<and>
       (\<forall>s'\<in>set post. \<exists>c'. compareFaces ?svc (Some [0]) (embedding s') = Inr c' \<and>
           similarity c' \<le> similarity c)"
    by blast
  with found' show ?thesis by (intro conjI)
qed

text \<open>
  Claim C10. If some candidate has no embedding, or one whose length differs from the
  probe's, \<open>findBestMatch\<close> fails as a whole, with the comparison's error behind its own
  prefix; the other candidates do not matter.
\<close>
theorem findBestMatch_fails_on_malformed_candidate:
  assumes "s \<in> set cs"
    and "embedding s = None \<or>
         (\<exists>p e. t = Some p \<and> embedding s = Some e \<and> length e \<noteq> length p)"
  shows "\<exists>msg. findBestMatch svc t cs =
           Inl (Error (''Best match search failed: '' @ ''Face comparison failed: '' @ msg))"
proof -
  from assms(2) have "embedding s = None \<or> t = None \<or> length (the t) \<noteq> length (the (embedding s))"
    by auto
  then have "t = None \<or> embedding s = None \<or> length (the t) \<noteq> length (the (embedding s))"
    by blast
  with compareFaces_Inl_iff [of svc t "embedding s"]
  obtain e where "compareFaces svc t (embedding s) = Inl e" by blast
  from scan_Inl [OF assms(1) this, of None 0]
  obtain e' where run: "scan svc t cs None 0 = Inl e'"
    and ex: "\<exists>s'\<in>set cs. compareFaces svc t (embedding s') = Inl e'"
    by blast
  from ex obtain s' where "s' \<in> set cs" and "compareFaces svc t (embedding s') = Inl e'"
    by blast
  from compareFaces_Inl_message [OF this(2)]
  obtain msg where "e' = Error (''Face comparison failed: '' @ msg)" by blast
  with run have "findBestMatch svc t cs =
      Inl (Error (''Best match search failed: '' @ ''Face comparison failed: '' @ msg))"
    by (simp add: findBestMatch_def)
  then show ?thesis by blast
qed

theorem findBestMatch_fails_on_malformed_candidate_witness:
  "(\<exists>msg. findBestMatch (constructor None None) (Some [0])
      [\<lparr>embedding_id = 1, embedding = Some [2 / 5], stored_confidence = 1\<rparr>,
       \<lparr>embedding_id = 2, embedding = Some [1, 2], stored_confidence = 1\<rparr>] =
     Inl (Error (''Best match search failed: '' @ ''Face comparison failed: '' @ msg))) \<and>
   findBestMatch (constructor None None) (Some [0])
      [\<lparr>embedding_id = 1, embedding = Some [2 / 5], stored_confidence = 1\<rparr>] =
     Inr (Some \<lparr>embedding_id = 1, embedding = Some [2 / 5], stored_confidence = 1,
                match_similarity = 3 / 5, match_distance = 2 / 5\<rparr>)"
proof -
  let ?bad = "\<lparr>embedding_id = 2, embedding = Some [1, 2], stored_confidence = 1\<rparr>"
  let ?cs = "[\<lparr>embedding_id = 1, embedding = Some [2 / 5], stored_confidence = 1\<rparr>, ?bad]"
  have mem: "?bad \<in> set ?cs" by simp
  have bad: "embedding ?bad = None \<or>
      (\<exists>p e. Some [0::real] = Some p \<and> embedding ?bad = Some e \<and> length e \<noteq> length p)"
    by simp
  have good: "findBestMatch (constructor None None) (Some [0])
      [\<lparr>embedding_id = 1, embedding = Some [2 / 5], stored_confidence = 1\<rparr>] =
     Inr (Some \<lparr>embedding_id = 1, embedding = Some [2 / 5], stored_confidence = 1,
                match_similarity = 3 / 5, match_distance = 2 / 5\<rparr>)"
    by (simp add: findBestMatch_def compareFaces_probe_zero default_threshold mkBestMatch_def)
  from findBestMatch_fails_on_malformed_candidate [OF mem bad, of "constructor None None"] good show ?thesis by (intro conjI)
qed

subsection \<open>Brightness\<close>

text \<open>Integers of at most 53 bits are doubles: rounding leaves them as they are.\<close>

lemma round_even_of_int: "round_even (of_int k) = k"
  by (simp add: round_even_def)

lemma exponent_of_int:
  assumes "k \<noteq> 0" and "\<bar>k\<bar> < 2 ^ 53"
  shows "0 \<le> \<lfloor>log 2 \<bar>real_of_int k\<bar>\<rfloor> \<and> \<lfloor>log 2 \<bar>real_of_int k\<bar>\<rfloor> \<le> 52"
proof -
  from assms(1) have "1 \<le> \<bar>k\<bar>" by simp
  then have "1 \<le> real_of_int \<bar>k\<bar>" by (simp only: of_int_1_le_iff)
  then have one: "1 \<le> \<bar>real_of_int k\<bar>" by simp
  then have "0 \<le> log 2 \<bar>real_of_int k\<bar>" by simp
  then have lo: "0 \<le> \<lfloor>log 2 \<bar>real_of_int k\<bar>\<rfloor>" by simp
  from assms(2) have "\<bar>real_of_int k\<bar> < 2 ^ 53"
    by (metis of_int_abs of_int_less_numeral_power_cancel_iff)
  then have "\<bar>real_of_int k\<bar> < 2 powr 53" by simp
  with one have "log 2 \<bar>real_of_int k\<bar> < 53"
    by (subst log_less_iff) simp_all
  then have "\<lfloor>log 2 \<bar>real_of_int k\<bar>\<rfloor> < 53" by linarith
  with lo show ?thesis by simp
qed

lemma to_double_of_int:
  assumes "\<bar>k\<bar> < 2 ^ 53"
  shows "to_double (of_int k) = of_int k"
proof (cases "k = 0")
  case True
  then show ?thesis by (simp add: to_double_def)
next
  case False
  define e where "e = \<lfloor>log 2 \<bar>real_of_int k\<bar>\<rfloor>"
  from exponent_of_int [OF False assms] have e: "0 \<le> e" "e \<le> 52" by (simp_all add: e_def)
  define m where "m = nat (52 - e)"
  from e have mx: "max (e - 52) (- 1074) = - int m" by (simp add: m_def)
  have u: "2 powr real_of_int (- int m) = 1 / 2 ^ m"
    by (simp add: powr_minus powr_realpow inverse_eq_divide)
  have q: "real_of_int k / (1 / 2 ^ m) = of_int (k * 2 ^ m)" by simp
  have "to_double (of_int k) = of_int (round_even (real_of_int k / (1 / 2 ^ m))) * (1 / 2 ^ m)"
    using False by (simp add: to_double_def Let_def e_def [symmetric] mx u del: of_int_minus)
  also have "\<dots> = of_int (k * 2 ^ m) * (1 / 2 ^ m)"
    by (simp only: q round_even_of_int)
  also have "\<dots> = of_int k" by simp
  finally show ?thesis .
qed

lemma to_double_of_nat: "n < 2 ^ 53 \<Longrightarrow> to_double (real n) = real n"
  using to_double_of_int [of "int n"] by simp

text \<open>
  An image all of whose bytes are \<open>b\<close>: every pixel value, every partial total and the
  average are integers, so nothing is rounded and the computed average is \<open>b\<close>.
\<close>

lemma pixel_uniform:
  fixes b :: "8 word"
  shows "to_double (to_double (to_double (real (unat b) + real (unat b)) + real (unat b)) / 3) =
     real (unat b)"
proof -
  have lt: "unat b < 256" using unsigned_less [of b, where ?'a = nat] by simp
  have 1: "to_double (real (unat b) + real (unat b)) = real (unat b + unat b)"
    using to_double_of_nat [of "unat b + unat b"] lt by simp
  have 2: "to_double (real (unat b + unat b) + real (unat b)) = real (unat b + unat b + unat b)"
    using to_double_of_nat [of "unat b + unat b + unat b"] lt by simp
  have 3: "real (unat b + unat b + unat b) / 3 = real (unat b)" by simp
  have 4: "to_double (real (unat b)) = real (unat b)"
    using to_double_of_nat [of "unat b"] lt by simp
  show ?thesis by (simp only: 1 2 3 4)
qed

lemma replicate_three: "replicate (3 * Suc n) b = b # b # b # replicate (3 * n) b"
proof -
  have "3 * Suc n = Suc (Suc (Suc (3 * n)))" by simp
  then show ?thesis by (simp only: replicate.simps)
qed

lemma totalBrightness_uniform:
  "k + n * unat b < 2 ^ 53 \<Longrightarrow>
     totalBrightness (replicate (3 * n) b) (Some (real k)) = Some (real (k + n * unat b))"
proof (induction n arbitrary: k)
  case 0
  then show ?case by simp
next
  case (Suc n)
  from Suc.prems have small: "k + unat b < 2 ^ 53" and rest: "(k + unat b) + n * unat b < 2 ^ 53"
    by simp_all
  have step: "to_double (real k + real (unat b)) = real (k + unat b)"
    using to_double_of_nat [OF small] by simp
  have "totalBrightness (replicate (3 * Suc n) b) (Some (real k)) =
      totalBrightness (replicate (3 * n) b) (Some (real (k + unat b)))"
    by (simp only: replicate_three totalBrightness.simps option.map pixel_uniform step)
  also have "\<dots> = Some (real ((k + unat b) + n * unat b))"
    by (rule Suc.IH [OF rest])
  finally show ?case by (simp add: add.assoc)
qed

lemma averageBrightness_uniform:
  assumes "0 < n" and "n < 2 ^ 45"
  shows "averageBrightness (replicate (3 * n) b) = Some (real (unat b))"
proof -
  have lt: "unat b < 2 ^ 8" using unsigned_less [of b, where ?'a = nat] by simp
  have "n * unat b < 2 ^ 45 * 2 ^ 8"
    using assms lt by (intro mult_strict_mono) simp_all
  then have bound: "0 + n * unat b < 2 ^ 53" by simp
  from totalBrightness_uniform [OF bound]
  have tot: "totalBrightness (replicate (3 * n) b) (Some 0) = Some (real (n * unat b))" by simp
  from assms(2) have "n < 2 ^ 53"
    by (rule less_trans) simp
  then have len: "to_double (real (3 * n) / 3) = real n"
    using to_double_of_nat [of n] by simp
  have quot: "real (n * unat b) / real n = real (unat b)" using assms(1) by simp
  have res: "to_double (real (unat b)) = real (unat b)"
    using to_double_of_nat [of "unat b"] lt by simp
  from assms(1) have nz: "(3 * n = 0) = False" by simp
  show ?thesis
    by (simp only: averageBrightness_def tot option.case length_replicate nz if_False len quot res)
qed

text \<open>
  The computed average is not the exact mean of the bytes. Twelve bytes of exact mean
  \<open>50\<close> whose pixel values are thirds: the rounded total is \<open>200 + 2 ^ - 45\<close> and the
  computed average \<open>50 + 2 ^ - 47\<close>.
\<close>

lemma exponent_eval:
  assumes "2 ^ e \<le> x" and "x < 2 * 2 ^ e"
  shows "\<lfloor>log 2 \<bar>x\<bar>\<rfloor> = int e"
proof -
  have pos: "0 < x" using assms(1) by (rule less_le_trans [rotated]) simp
  have "2 powr real e \<le> x" using assms(1) by (simp add: powr_realpow)
  then have lo: "real e \<le> log 2 x" using pos by (simp add: le_log_iff)
  have "x < 2 powr (real e + 1)" using assms(2) by (simp add: powr_add powr_realpow)
  then have hi: "log 2 x < real e + 1" using pos by (simp add: log_less_iff)
  from lo hi have "\<lfloor>log 2 x\<rfloor> = int e" by (intro floor_unique) simp_all
  with pos show ?thesis by simp
qed

lemma to_double_eval:
  assumes "2 ^ e \<le> x" and "x < 2 * 2 ^ e" and "e \<le> 52"
  shows "to_double x = of_int (round_even (x * 2 ^ (52 - e))) / 2 ^ (52 - e)"
proof -
  have pos: "x \<noteq> 0" using assms(1) less_le_trans [of 0 "2 ^ e" x] by simp
  from assms(3) have mx: "max (int e - 52) (- 1074) = - int (52 - e)" by simp
  have u: "2 powr real_of_int (- int (52 - e)) = 1 / 2 ^ (52 - e)"
    by (simp add: powr_minus powr_realpow inverse_eq_divide)
  show ?thesis
    using pos
    by (simp add: to_double_def Let_def exponent_eval [OF assms(1,2)] mx u del: of_int_minus)
qed

lemma pixel_value:
  fixes r g b :: "8 word"
  shows "to_double (to_double (to_double (real (unat r) + real (unat g)) + real (unat b)) / 3) =
     to_double (real (unat r + unat g + unat b) / 3)"
proof -
  have lt: "unat r < 256" "unat g < 256" "unat b < 256"
    using unsigned_less [of r, where ?'a = nat] unsigned_less [of g, where ?'a = nat]
      unsigned_less [of b, where ?'a = nat]
    by simp_all
  have 1: "to_double (real (unat r) + real (unat g)) = real (unat r + unat g)"
    using to_double_of_nat [of "unat r + unat g"] lt by simp
  have 2: "to_double (real (unat r + unat g) + real (unat b)) = real (unat r + unat g + unat b)"
    using to_double_of_nat [of "unat r + unat g + unat b"] lt by simp
  show ?thesis by (simp only: 1 2)
qed

lemma drift_pixels:
  "to_double (145 / 3) = 6802311937174187 / 2 ^ 47"
  "to_double (154 / 3) = 7224524402240171 / 2 ^ 47"
  "to_double (151 / 3) = 7083786913884843 / 2 ^ 47"
  using to_double_eval [of 5 "145 / 3"] to_double_eval [of 5 "154 / 3"]
    to_double_eval [of 5 "151 / 3"]
  by (simp_all add: round_even_def)

lemma drift_totals:
  "to_double (6802311937174187 / 2 ^ 47) = 6802311937174187 / 2 ^ 47"
  "to_double (6802311937174187 / 2 ^ 47 + 7224524402240171 / 2 ^ 47) = 7013418169707179 / 2 ^ 46"
  "to_double (7013418169707179 / 2 ^ 46 + 50) = 2632963844647595 / 2 ^ 44"
  "to_double (2632963844647595 / 2 ^ 44 + 7083786913884843 / 2 ^ 47) =
     7036874417766401 / 2 ^ 45"
  "to_double (7036874417766401 / 2 ^ 45 / 4) = 7036874417766401 / 2 ^ 47"
  using to_double_eval [of 5 "6802311937174187 / 2 ^ 47"]
    to_double_eval [of 6 "6802311937174187 / 2 ^ 47 + 7224524402240171 / 2 ^ 47"]
    to_double_eval [of 7 "7013418169707179 / 2 ^ 46 + 50"]
    to_double_eval [of 7 "2632963844647595 / 2 ^ 44 + 7083786913884843 / 2 ^ 47"]
    to_double_eval [of 5 "7036874417766401 / 2 ^ 45 / 4"]
  by (simp_all add: round_even_def)

lemma drift_average:
  "averageBrightness [48, 48, 49, 52, 50, 52, 50, 50, 50, 51, 51, 49] =
     Some (7036874417766401 / 2 ^ 47)"
proof -
  have v: "real (unat (48 :: 8 word) + unat (48 :: 8 word) + unat (49 :: 8 word)) / 3 = 145 / 3"
    "real (unat (52 :: 8 word) + unat (50 :: 8 word) + unat (52 :: 8 word)) / 3 = 154 / 3"
    "real (unat (50 :: 8 word) + unat (50 :: 8 word) + unat (50 :: 8 word)) / 3 = 50"
    "real (unat (51 :: 8 word) + unat (51 :: 8 word) + unat (49 :: 8 word)) / 3 = 151 / 3"
    by simp_all
  have z: "(0 :: real) + 6802311937174187 / 2 ^ 47 = 6802311937174187 / 2 ^ 47" by simp
  have w: "to_double 50 = 50" "to_double 4 = 4"
    using to_double_of_nat [of 50] to_double_of_nat [of 4] by simp_all
  have tot: "totalBrightness [48, 48, 49, 52, 50, 52, 50, 50, 50, 51, 51, 49] (Some 0) =
      Some (7036874417766401 / 2 ^ 45)"
    by (simp only: totalBrightness.simps option.map pixel_value v drift_pixels z w drift_totals)
  have len: "length [48, 48, 49, 52, 50, 52, 50, 50, 50, 51, 51, 49 :: 8 word] = 12" by simp
  have nz: "((12 :: nat) = 0) = False" by simp
  have q: "real 12 / 3 = 4" by simp
  show ?thesis
    by (simp only: averageBrightness_def tot option.case len nz if_False q w drift_totals)
qed

lemma drift_above: "(50 :: real) < 7036874417766401 / 2 ^ 47" "(7036874417766401 :: real) / 2 ^ 47 < 200"
  by simp_all

text \<open>
  Claim C9, amended. \<open>checkBrightness\<close> reports \<open>isGood\<close> exactly when the raw bytes could
  be read and the average it computes in double arithmetic, which is the value it
  reports, is a number strictly between \<open>50\<close> and \<open>200\<close>: a computed average of exactly
  \<open>50\<close> or \<open>200\<close> is not good. For an image all of whose bytes are \<open>b\<close> the computed
  average is \<open>b\<close>.
\<close>
theorem checkBrightness_isGood_iff:
  "(isGood (checkBrightness raw) \<longleftrightarrow>
      (\<exists>data v. raw = Some data \<and> averageBrightness data = Some v \<and> 50 < v \<and> v < 200)) \<and>
   brightness_value (checkBrightness (Some data0)) = averageBrightness data0 \<and>
   (0 < n \<and> n < 2 ^ 45 \<longrightarrow> averageBrightness (replicate (3 * n) b) = Some (real (unat b)))"
proof (intro conjI impI)
  show "isGood (checkBrightness raw) \<longleftrightarrow>
      (\<exists>data v. raw = Some data \<and> averageBrightness data = Some v \<and> 50 < v \<and> v < 200)"
    by (cases raw) (auto simp: checkBrightness_def Let_def split: option.splits)
next
  show "brightness_value (checkBrightness (Some data0)) = averageBrightness data0"
    by (simp add: checkBrightness_def Let_def)
next
  assume "0 < n \<and> n < 2 ^ 45"
  then show "averageBrightness (replicate (3 * n) b) = Some (real (unat b))"
    using averageBrightness_uniform [of n b] by blast
qed

theorem checkBrightness_isGood_iff_witness:
  "averageBrightness (replicate 30000 51) = Some 51 \<and>
   isGood (checkBrightness (Some (replicate 30000 51))) \<and>
   isGood (checkBrightness (Some [48, 48, 49, 52, 50, 52, 50, 50, 50, 51, 51, 49]))"
proof -
  have n: "0 < (10000 :: nat) \<and> (10000 :: nat) < 2 ^ 45" by simp
  from checkBrightness_isGood_iff [of "Some (replicate 30000 51)" "[]" 10000 51] n
  have avg: "averageBrightness (replicate 30000 51) = Some 51"
    and iff: "isGood (checkBrightness (Some (replicate 30000 51))) \<longleftrightarrow>
      (\<exists>data v. Some (replicate 30000 51) = Some data \<and> averageBrightness data = Some v \<and>
         50 < v \<and> v < 200)"
    by simp_all
  from iff avg have good: "isGood (checkBrightness (Some (replicate 30000 51)))" by simp
  from checkBrightness_isGood_iff
    [of "Some [48, 48, 49, 52, 50, 52, 50, 50, 50, 51, 51, 49]" "[]" 10000 51]
    drift_average drift_above
  have "isGood (checkBrightness (Some [48, 48, 49, 52, 50, 52, 50, 50, 50, 51, 51, 49]))"
    by blast
  with avg good show ?thesis by (intro conjI)
qed

text \<open>
  A decoded image of \<open>100 \<times> 100\<close> pixels, three bytes each, all bytes \<open>50\<close>, and one with
  all bytes \<open>200\<close>: the computed averages are exactly \<open>50\<close> and \<open>200\<close>, and neither image
  is reported good.
\<close>
theorem checkBrightness_endpoints_not_good:
  "averageBrightness (replicate 30000 50) = Some 50 \<and>
   isGood (checkBrightness (Some (replicate 30000 50))) = False \<and>
   averageBrightness (replicate 30000 200) = Some 200 \<and>
   isGood (checkBrightness (Some (replicate 30000 200))) = False"
proof -
  have a: "averageBrightness (replicate 30000 50) = Some 50"
    using averageBrightness_uniform [of 10000 50] by simp
  have b: "averageBrightness (replicate 30000 200) = Some 200"
    using averageBrightness_uniform [of 10000 200] by simp
  from a b show ?thesis by (simp add: checkBrightness_def)
qed

section \<open>The payment service and the gateway events\<close>

lemma find_update_same:
  assumes "find (\<lambda>q. stripePaymentIntentId q = i) ps = Some p"
    and "stripePaymentIntentId p' = i" and "payment_id p' = payment_id p"
  shows "find (\<lambda>q. stripePaymentIntentId q = i)
           (map (\<lambda>q. if payment_id q = payment_id p' then p' else q) ps) = Some p'"
  using assms by (induction ps) (auto split: if_splits)

lemma findOne_update_payment:
  assumes "Payment_findOne st i = Some p"
    and "stripePaymentIntentId p' = i" and "payment_id p' = payment_id p"
  shows "Payment_findOne (update_payment p' st) i = Some p'"
  using find_update_same [OF assms [unfolded Payment_findOne_def]]
  by (simp add: Payment_findOne_def update_payment_def)

lemma webhook_succeeded:
  "event_type e = ''payment_intent.succeeded'' \<Longrightarrow>
     handleWebhook ev st e = handlePaymentSucceeded ev st (event_object e)"
  by (simp add: handleWebhook_def)

lemma webhook_refunded:
  "event_type e = ''charge.refunded'' \<Longrightarrow>
     handleWebhook ev st e = handleChargeRefunded ev st (event_object e)"
  by (simp add: handleWebhook_def)

lemma findOne_intent:
  "Payment_findOne st i = Some p \<Longrightarrow> stripePaymentIntentId p = i"
  unfolding Payment_findOne_def by (induction "payments st" arbitrary: st) (auto simp: find_Some_iff)

text \<open>
  Claim C1, amended. For a record already \<open>succeeded\<close>, a payment-succeeded event for its
  intent id does not throw when the save goes through, changes no user and no record id,
  and leaves the record \<open>succeeded\<close>; its \<open>processedAt\<close> is not kept but overwritten with
  the time of this application.
\<close>
theorem replayed_succeeded_event_restamps:
  assumes "event_type e = ''payment_intent.succeeded''"
    and "Payment_findOne st (object_id (event_object e)) = Some p"
    and "status p = ''succeeded''"
    and "payment_save ev = None"
  shows "\<exists>st'. handleWebhook ev st e = (Inr (), st') \<and>
           users st' = users st \<and>
           map payment_id (payments st') = map payment_id (payments st) \<and>
           Payment_findOne st' (object_id (event_object e)) =
             Some (p\<lparr>processedAt := Some (now ev)\<rparr>) \<and>
           status (p\<lparr>processedAt := Some (now ev)\<rparr>) = ''succeeded''"
proof -
  let ?p' = "p\<lparr>status := ''succeeded'', processedAt := Some (now ev)\<rparr>"
  from assms(3) have same: "?p' = p\<lparr>processedAt := Some (now ev)\<rparr>" by simp
  have run: "handleWebhook ev st e = (Inr (), update_payment ?p' st)"
    using assms(1,2,4) by (simp add: webhook_succeeded handlePaymentSucceeded_def)
  have "stripePaymentIntentId ?p' = object_id (event_object e)"
    using findOne_intent [OF assms(2)] by simp
  from findOne_update_payment [OF assms(2) this]
  have "Payment_findOne (update_payment ?p' st) (object_id (event_object e)) = Some ?p'"
    by simp
  moreover have "map payment_id (payments (update_payment ?p' st)) = map payment_id (payments st)"
    by (simp add: update_payment_def comp_def cong: map_cong)
  moreover have "users (update_payment ?p' st) = users st"
    by (simp add: update_payment_def)
  ultimately show ?thesis using run same assms(3) by simp
qed


lemma usd_lower: "toLowerCase ''usd'' = ''usd''"
  by code_simp

lemma coffee_fields:
  "payment_id coffee = 7" "status coffee = ''pending''" "stripePaymentIntentId coffee = ''pi_1''"
  "processedAt coffee = None" "refundedAt coffee = None" "amount coffee = 2550"
  by (simp_all add: coffee_def newPayment_def answers_def intent_pi_1_def Math_round_def)

lemma answers_fields:
  "payment_save (answers t s) = None" "now (answers t s) = t"
  "paymentIntents_confirm (answers t s) = Inr (intent_pi_1 s)"
  "refunds_create (answers t s) = Inr (intent_pi_1 ''succeeded'')"
  by (simp_all add: answers_def)

lemma update_single:
  "payment_id p' = payment_id p \<Longrightarrow>
     update_payment p' \<lparr>users = us, payments = [p]\<rparr> = \<lparr>users = us, payments = [p']\<rparr>"
  by (simp add: update_payment_def)

lemma succeeded_event_fields:
  "event_type succeeded_event = ''payment_intent.succeeded''"
  "object_id (event_object succeeded_event) = ''pi_1''"
  by (simp_all add: succeeded_event_def intent_pi_1_def)

lemma intent_pi_1_fields:
  "object_id (intent_pi_1 s) = ''pi_1''" "payment_intent (intent_pi_1 s) = ''pi_1''"
  "object_status (intent_pi_1 s) = s" "last_payment_error (intent_pi_1 s) = None"
  by (simp_all add: intent_pi_1_def)

lemma refunded_event_fields:
  "event_type refunded_event = ''charge.refunded''"
  "payment_intent (event_object refunded_event) = ''pi_1''"
  by (simp_all add: refunded_event_def intent_pi_1_def)

lemma findOne_single:
  "stripePaymentIntentId p = i \<Longrightarrow> Payment_findOne \<lparr>users = us, payments = [p]\<rparr> i = Some p"
  by (simp add: Payment_findOne_def)

lemma findById_single:
  "payment_id p = i \<Longrightarrow> Payment_findById \<lparr>users = us, payments = [p]\<rparr> i = Some p"
  by (simp add: Payment_findById_def)

lemma succeeded_single:
  assumes "stripePaymentIntentId p = ''pi_1''"
  shows "handleWebhook (answers t s) \<lparr>users = us, payments = [p]\<rparr> succeeded_event =
     (Inr (), \<lparr>users = us, payments = [p\<lparr>status := ''succeeded'', processedAt := Some t\<rparr>]\<rparr>)"
  by (simp add: webhook_succeeded succeeded_event_fields handlePaymentSucceeded_def
      findOne_single [OF assms] answers_fields update_single)

lemma refunded_single:
  assumes "stripePaymentIntentId p = ''pi_1''"
  shows "handleWebhook (answers t s) \<lparr>users = us, payments = [p]\<rparr> refunded_event =
     (Inr (), \<lparr>users = us, payments = [p\<lparr>status := ''refunded'', refundedAt := Some t\<rparr>]\<rparr>)"
  by (simp add: webhook_refunded refunded_event_fields handleChargeRefunded_def
      findOne_single [OF assms] answers_fields update_single)

text \<open>
  The same event applied at time \<open>100\<close> and again at time \<open>200\<close>: the second application
  moves \<open>processedAt\<close> from \<open>100\<close> to \<open>200\<close>.
\<close>
theorem replayed_succeeded_event_changes_processedAt:
  "handleWebhook (answers 100 []) shop succeeded_event =
     (Inr (), \<lparr>users = [alice],
               payments = [coffee\<lparr>status := ''succeeded'', processedAt := Some 100\<rparr>]\<rparr>) \<and>
   handleWebhook (answers 200 [])
       \<lparr>users = [alice], payments = [coffee\<lparr>status := ''succeeded'', processedAt := Some 100\<rparr>]\<rparr>
       succeeded_event =
     (Inr (), \<lparr>users = [alice],
               payments = [coffee\<lparr>status := ''succeeded'', processedAt := Some 200\<rparr>]\<rparr>) \<and>
   processedAt (coffee\<lparr>status := ''succeeded'', processedAt := Some 200\<rparr>) \<noteq>
   processedAt (coffee\<lparr>status := ''succeeded'', processedAt := Some 100\<rparr>)"
  by (simp add: shop_def succeeded_single coffee_fields)

theorem replayed_succeeded_event_restamps_witness:
  "\<exists>st'. handleWebhook (answers 200 [])
       \<lparr>users = [alice], payments = [coffee\<lparr>status := ''succeeded'', processedAt := Some 100\<rparr>]\<rparr>
       succeeded_event = (Inr (), st') \<and>
     Payment_findOne st' ''pi_1'' = Some (coffee\<lparr>status := ''succeeded'', processedAt := Some 200\<rparr>)"
proof -
  let ?p = "coffee\<lparr>status := ''succeeded'', processedAt := Some 100\<rparr>"
  let ?st = "\<lparr>users = [alice], payments = [?p]\<rparr>"
  have 1: "event_type succeeded_event = ''payment_intent.succeeded''"
    by (simp add: succeeded_event_fields)
  have 2: "Payment_findOne ?st (object_id (event_object succeeded_event)) = Some ?p"
    by (simp add: succeeded_event_fields findOne_single coffee_fields)
  have 3: "status ?p = ''succeeded''" by simp
  have 4: "payment_save (answers 200 []) = None" by (simp add: answers_fields)
  from replayed_succeeded_event_restamps [OF 1 2 3 4] show ?thesis
    by (auto simp add: succeeded_event_fields answers_fields)
qed

subsection \<open>Refunds\<close>

lemma refundPayment_not_succeeded:
  assumes "Payment_findById st pid = Some p" and "status p \<noteq> ''succeeded''"
  shows "refundPayment ev st pid reason =
     (Inl (Error (''Refund failed: '' @ ''Only successful payments can be refunded'')), st)"
  using assms by (simp add: refundPayment_def rethrow_def)

lemma refundPayment_Inr:
  assumes "refundPayment ev st pid reason = (Inr (p', r), st')"
  shows "\<exists>p. Payment_findById st pid = Some p \<and> status p = ''succeeded'' \<and>
     p' = p\<lparr>status := ''refunded'', failureReason := Some reason, refundedAt := Some (now ev)\<rparr> \<and>
     st' = update_payment p' st"
  using assms
  by (auto simp: refundPayment_def Let_def split: option.splits if_splits sum.splits)

lemma chargeRefunded_any_status:
  assumes "event_type e = ''charge.refunded''"
    and "Payment_findOne st (payment_intent (event_object e)) = Some q"
    and "payment_save ev = None"
  shows "handleWebhook ev st e =
      (Inr (), update_payment (q\<lparr>status := ''refunded'', refundedAt := Some (now ev)\<rparr>) st) \<and>
    Payment_findOne (update_payment (q\<lparr>status := ''refunded'', refundedAt := Some (now ev)\<rparr>) st)
      (payment_intent (event_object e)) =
      Some (q\<lparr>status := ''refunded'', refundedAt := Some (now ev)\<rparr>)"
proof -
  let ?q' = "q\<lparr>status := ''refunded'', refundedAt := Some (now ev)\<rparr>"
  have "stripePaymentIntentId ?q' = payment_intent (event_object e)"
    using findOne_intent [OF assms(2)] by simp
  from findOne_update_payment [OF assms(2) this]
  have "Payment_findOne (update_payment ?q' st) (payment_intent (event_object e)) = Some ?q'"
    by simp
  then show ?thesis
    using assms by (simp add: webhook_refunded handleChargeRefunded_def)
qed

text \<open>
  Claim C2, amended. A refund request against a record whose status is not \<open>succeeded\<close>
  fails with the invalid-state error and leaves the store as it was, and a refund request
  that returns has found the record \<open>succeeded\<close>. The charge-refunded event has no such
  guard: it sets \<open>refunded\<close> and stamps \<open>refundedAt\<close> on the record of the intent whatever
  its status.
\<close>
theorem refund_request_needs_succeeded:
  "(Payment_findById st pid = Some p \<and> status p \<noteq> ''succeeded'' \<longrightarrow>
      refundPayment ev st pid reason =
        (Inl (Error (''Refund failed: '' @ ''Only successful payments can be refunded'')), st)) \<and>
   (refundPayment ev st pid reason = (Inr (p', r), st') \<longrightarrow>
      (\<exists>p0. Payment_findById st pid = Some p0 \<and> status p0 = ''succeeded'' \<and>
         p' = p0\<lparr>status := ''refunded'', failureReason := Some reason,
                 refundedAt := Some (now ev)\<rparr> \<and>
         st' = update_payment p' st)) \<and>
   (event_type e = ''charge.refunded'' \<and>
    Payment_findOne st (payment_intent (event_object e)) = Some q \<and> payment_save ev = None \<longrightarrow>
      handleWebhook ev st e =
        (Inr (), update_payment (q\<lparr>status := ''refunded'', refundedAt := Some (now ev)\<rparr>) st) \<and>
      Payment_findOne (update_payment (q\<lparr>status := ''refunded'', refundedAt := Some (now ev)\<rparr>) st)
        (payment_intent (event_object e)) =
        Some (q\<lparr>status := ''refunded'', refundedAt := Some (now ev)\<rparr>))"
  using refundPayment_not_succeeded [of st pid p ev reason]
    refundPayment_Inr [of ev st pid reason p' r st']
    chargeRefunded_any_status [of e st q ev]
  by blast

text \<open>A charge-refunded event takes a \<open>pending\<close> record straight to \<open>refunded\<close>.\<close>
theorem charge_refunded_event_refunds_pending:
  "status coffee = ''pending'' \<and>
   handleWebhook (answers 50 []) shop refunded_event =
     (Inr (), \<lparr>users = [alice],
               payments = [coffee\<lparr>status := ''refunded'', refundedAt := Some 50\<rparr>]\<rparr>)"
  by (simp add: shop_def refunded_single coffee_fields)

lemma refund_paid:
  "refundPayment (answers 50 [])
      \<lparr>users = [alice], payments = [coffee\<lparr>status := ''succeeded'', processedAt := Some 10\<rparr>]\<rparr>
      7 ''changed my mind'' =
    (Inr (coffee\<lparr>status := ''refunded'', processedAt := Some 10,
                 failureReason := Some ''changed my mind'', refundedAt := Some 50\<rparr>,
          intent_pi_1 ''succeeded''),
     \<lparr>users = [alice],
      payments = [coffee\<lparr>status := ''refunded'', processedAt := Some 10,
                 failureReason := Some ''changed my mind'', refundedAt := Some 50\<rparr>]\<rparr>)"
  by (simp add: refundPayment_def findById_single coffee_fields answers_fields update_single Let_def)

theorem refund_request_needs_succeeded_witness:
  "refundPayment (answers 50 []) shop 7 ''changed my mind'' =
     (Inl (Error (''Refund failed: '' @ ''Only successful payments can be refunded'')), shop) \<and>
   (\<exists>p0. Payment_findById
        \<lparr>users = [alice], payments = [coffee\<lparr>status := ''succeeded'', processedAt := Some 10\<rparr>]\<rparr> 7 =
        Some p0 \<and> status p0 = ''succeeded'') \<and>
   handleWebhook (answers 50 []) shop refunded_event =
     (Inr (), update_payment (coffee\<lparr>status := ''refunded'', refundedAt := Some 50\<rparr>) shop)"
proof -
  have 1: "Payment_findById shop 7 = Some coffee \<and> status coffee \<noteq> ''succeeded''"
    by (simp add: shop_def findById_single coffee_fields)
  have 3: "event_type refunded_event = ''charge.refunded'' \<and>
      Payment_findOne shop (payment_intent (event_object refunded_event)) = Some coffee \<and>
      payment_save (answers 50 []) = None"
    by (simp add: shop_def refunded_event_fields findOne_single coffee_fields answers_fields)
  from refund_request_needs_succeeded [of shop 7 coffee "answers 50 []" "''changed my mind''"
      "coffee\<lparr>status := ''refunded'', processedAt := Some 10,
                 failureReason := Some ''changed my mind'', refundedAt := Some 50\<rparr>"
      "intent_pi_1 ''succeeded''" "shop" refunded_event coffee] 1 3
  have a: "refundPayment (answers 50 []) shop 7 ''changed my mind'' =
     (Inl (Error (''Refund failed: '' @ ''Only successful payments can be refunded'')), shop)"
    and c: "handleWebhook (answers 50 []) shop refunded_event =
     (Inr (), update_payment (coffee\<lparr>status := ''refunded'', refundedAt := Some 50\<rparr>) shop)"
    by (simp_all add: answers_fields)
  let ?st = "\<lparr>users = [alice], payments = [coffee\<lparr>status := ''succeeded'', processedAt := Some 10\<rparr>]\<rparr>"
  let ?p' = "coffee\<lparr>status := ''refunded'', processedAt := Some 10,
                 failureReason := Some ''changed my mind'', refundedAt := Some 50\<rparr>"
  from refund_request_needs_succeeded [of ?st 7 coffee "answers 50 []" "''changed my mind''" ?p'
      "intent_pi_1 ''succeeded''" "\<lparr>users = [alice], payments = [?p']\<rparr>" refunded_event coffee]
    refund_paid
  have b: "\<exists>p0. Payment_findById ?st 7 = Some p0 \<and> status p0 = ''succeeded''"
    by blast
  from a b c show ?thesis by (intro conjI)
qed


subsection \<open>The statuses along a run\<close>

lemma known_update_payment:
  "known st \<Longrightarrow> status p \<in> statuses \<Longrightarrow> known (update_payment p st)"
  by (auto simp: known_def update_payment_def)

lemma known_insert_payment:
  "known st \<Longrightarrow> status p \<in> statuses \<Longrightarrow> known (insert_payment p st)"
  by (auto simp: known_def insert_payment_def)

lemma payments_ensureCustomer:
  "ensureCustomer ev st u = (r, st') \<Longrightarrow> payments st' = payments st"
  by (auto simp: ensureCustomer_def update_user_def split: option.splits list.splits sum.splits)

lemma in_statuses:
  "''pending'' \<in> statuses" "''succeeded'' \<in> statuses" "''failed'' \<in> statuses"
  "''refunded'' \<in> statuses"
  by (simp_all add: statuses_def)

lemma known_handleWebhook: "known st \<Longrightarrow> known (snd (handleWebhook ev st e))"
  by (auto simp: handleWebhook_def handlePaymentSucceeded_def handlePaymentFailed_def
      handleChargeRefunded_def Let_def known_update_payment in_statuses split: option.splits)

lemma known_refundPayment: "known st \<Longrightarrow> known (snd (refundPayment ev st pid reason))"
  by (auto simp: refundPayment_def Let_def known_update_payment in_statuses
      split: option.splits sum.splits)

lemma status_newPayment: "status (newPayment ev u amt cur descr fd method intent c) = ''pending''"
  by (simp add: newPayment_def)

lemma known_processFacePayment:
  assumes "known st"
  shows "known (snd (processFacePayment ev st uid amt cur descr fd method))"
proof (cases "User_findById st uid")
  case None
  with assms show ?thesis by (simp add: processFacePayment_def)
next
  case (Some u)
  obtain r st1 where ens: "ensureCustomer ev st u = (r, st1)"
    by (cases "ensureCustomer ev st u")
  from payments_ensureCustomer [OF ens] assms have k1: "known st1"
    by (simp add: known_def)
  show ?thesis
    using Some ens k1 assms
    by (auto simp: processFacePayment_def Let_def known_insert_payment status_newPayment in_statuses
        split: sum.splits option.splits)
qed

lemma status_confirmed: "status (confirmed ev p intent) = object_status intent"
  by (simp add: confirmed_def Let_def)

lemma known_confirmPayment:
  assumes "known st" and "confirm_status_known (ev, ConfirmPayment i m)"
  shows "known (snd (confirmPayment ev st i m))"
  using assms
  by (auto simp: confirmPayment_def Let_def known_update_payment status_confirmed
      split: option.splits sum.splits)

lemma known_step: "known st \<Longrightarrow> confirm_status_known x \<Longrightarrow> known (step st x)"
proof (cases x)
  case (Pair ev op)
  assume "known st" "confirm_status_known x"
  with Pair show ?thesis
    by (cases op)
      (simp_all add: known_processFacePayment known_confirmPayment known_refundPayment
        known_handleWebhook)
qed

lemma known_run:
  "known st \<Longrightarrow> \<forall>x\<in>set ops. confirm_status_known x \<Longrightarrow> known (run st ops)"
  unfolding run_def by (induction ops arbitrary: st) (simp_all add: known_step)

lemma confirmPayment_Inr:
  "confirmPayment ev st i m = (Inr (p', g), st') \<Longrightarrow>
     paymentIntents_confirm ev = Inr g \<and> status p' = object_status g"
  by (auto simp: confirmPayment_def Let_def status_confirmed split: option.splits sum.splits)

text \<open>
  Claim C3, amended. Authorization, refund and the gateway events keep every record's
  status among \<open>pending\<close>, \<open>succeeded\<close>, \<open>failed\<close>, \<open>refunded\<close>; a confirm call gives the
  record the status the gateway answers, so a run keeps the statuses in the set when each
  of its confirm calls is answered with a status of the set.
\<close>
theorem statuses_kept_by_runs:
  "((\<forall>p\<in>set (payments st). status p \<in> statuses) \<and> (\<forall>x\<in>set ops. confirm_status_known x) \<longrightarrow>
      (\<forall>p\<in>set (payments (run st ops)). status p \<in> statuses)) \<and>
   (confirmPayment ev st i m = (Inr (p', g), st') \<longrightarrow>
      paymentIntents_confirm ev = Inr g \<and> status p' = object_status g)"
  using known_run [of st ops] confirmPayment_Inr [of ev st i m p' g st']
  unfolding known_def by blast


lemma newPayment_coffee:
  "newPayment (answers t s) alice (255 / 10) ''usd'' ''Coffee'' evidence ''card''
     (intent_pi_1 ''requires_payment_method'') ''cus_1'' = coffee"
  by (simp add: coffee_def newPayment_def answers_def)

lemma authorize_coffee:
  "processFacePayment (answers t s) \<lparr>users = [alice], payments = []\<rparr> 1 (255 / 10) ''usd''
      ''Coffee'' evidence ''card'' =
     (Inr \<lparr>result_paymentIntent = intent_pi_1 ''requires_payment_method'',
           result_payment = coffee,
           result_user = \<lparr>summary_id = 1, summary_name = ''Alice'',
                          summary_email = ''alice@example.com''\<rparr>\<rparr>,
      shop)"
proof -
  have u: "User_findById \<lparr>users = [alice], payments = []\<rparr> 1 = Some alice"
    by (simp add: User_findById_def alice_def)
  have c: "ensureCustomer (answers t s) \<lparr>users = [alice], payments = []\<rparr> alice =
      (Inr ''cus_1'', \<lparr>users = [alice], payments = []\<rparr>)"
    by (simp add: ensureCustomer_def alice_def)
  have i: "createPaymentIntent (answers t s) (255 / 10) ''usd'' =
      Inr (intent_pi_1 ''requires_payment_method'')"
    by (simp add: createPaymentIntent_def answers_def)
  have a: "isActive alice" "user_id alice = 1" "fullName alice = ''Alice''"
    "email alice = ''alice@example.com''"
    by (simp_all add: alice_def)
  show ?thesis
    using u c i newPayment_coffee [of t s]
    by (simp add: processFacePayment_def a answers_fields insert_payment_def shop_def)
qed

lemma confirm_coffee:
  "confirmPayment (answers t s) shop ''pi_1'' None =
     (Inr (confirmed (answers t s) coffee (intent_pi_1 s), intent_pi_1 s),
      \<lparr>users = [alice], payments = [confirmed (answers t s) coffee (intent_pi_1 s)]\<rparr>)"
  by (simp add: confirmPayment_def shop_def findOne_single coffee_fields answers_fields
      Let_def update_single confirmed_def)

lemma confirmed_processing:
  "confirmed (answers t ''processing'') coffee (intent_pi_1 ''processing'') =
     coffee\<lparr>status := ''processing''\<rparr>"
  by (simp add: confirmed_def intent_pi_1_fields)

lemma confirmed_succeeded:
  "confirmed (answers t ''succeeded'') coffee (intent_pi_1 ''succeeded'') =
     coffee\<lparr>status := ''succeeded'', processedAt := Some t\<rparr>"
  by (simp add: confirmed_def intent_pi_1_fields answers_fields)

text \<open>
  Authorization followed by a confirm call that the gateway answers with \<open>processing\<close>:
  the stored record has status \<open>processing\<close>.
\<close>
theorem confirm_copies_unknown_status:
  "run \<lparr>users = [alice], payments = []\<rparr>
      [(answers 0 [], ProcessFacePayment 1 (255 / 10) ''usd'' ''Coffee'' evidence ''card''),
       (answers 10 ''processing'', ConfirmPayment ''pi_1'' None)] =
     \<lparr>users = [alice], payments = [coffee\<lparr>status := ''processing''\<rparr>]\<rparr> \<and>
   ''processing'' \<notin> statuses"
  using authorize_coffee [of 0 "[]"] confirm_coffee [of 10 "''processing''"]
  by (simp add: run_def confirmed_processing statuses_def)

lemma refund_run:
  "run \<lparr>users = [alice], payments = []\<rparr>
      [(answers 0 [], ProcessFacePayment 1 (255 / 10) ''usd'' ''Coffee'' evidence ''card''),
       (answers 10 ''succeeded'', ConfirmPayment ''pi_1'' None),
       (answers 50 [], RefundPayment 7 ''changed my mind'')] =
     \<lparr>users = [alice],
      payments = [coffee\<lparr>status := ''refunded'', processedAt := Some 10,
                 failureReason := Some ''changed my mind'', refundedAt := Some 50\<rparr>]\<rparr>"
  using authorize_coffee [of 0 "[]"] confirm_coffee [of 10 "''succeeded''"]
  by (simp add: run_def confirmed_succeeded refund_paid)

theorem statuses_kept_by_runs_witness:
  "run \<lparr>users = [alice], payments = []\<rparr>
      [(answers 0 [], ProcessFacePayment 1 (255 / 10) ''usd'' ''Coffee'' evidence ''card''),
       (answers 10 ''succeeded'', ConfirmPayment ''pi_1'' None),
       (answers 50 [], RefundPayment 7 ''changed my mind'')] =
     \<lparr>users = [alice],
      payments = [coffee\<lparr>status := ''refunded'', processedAt := Some 10,
                 failureReason := Some ''changed my mind'', refundedAt := Some 50\<rparr>]\<rparr> \<and>
   list_all (\<lambda>p. status p \<in> statuses)
     (payments (run \<lparr>users = [alice], payments = []\<rparr>
      [(answers 0 [], ProcessFacePayment 1 (255 / 10) ''usd'' ''Coffee'' evidence ''card''),
       (answers 10 ''succeeded'', ConfirmPayment ''pi_1'' None),
       (answers 50 [], RefundPayment 7 ''changed my mind'')]))"
proof -
  let ?st = "\<lparr>users = [alice], payments = []\<rparr>"
  let ?ops = "[(answers 0 [], ProcessFacePayment 1 (255 / 10) ''usd'' ''Coffee'' evidence ''card''),
       (answers 10 ''succeeded'', ConfirmPayment ''pi_1'' None),
       (answers 50 [], RefundPayment 7 ''changed my mind'')]"
  have 1: "\<forall>p\<in>set (payments ?st). status p \<in> statuses" by simp
  have 2: "\<forall>x\<in>set ?ops. confirm_status_known x"
    by (simp add: answers_fields intent_pi_1_fields in_statuses)
  from statuses_kept_by_runs [of ?st ?ops] 1 2
  have "\<forall>p\<in>set (payments (run ?st ?ops)). status p \<in> statuses" by blast
  then have "list_all (\<lambda>p. status p \<in> statuses) (payments (run ?st ?ops))"
    by (simp add: list_all_iff)
  with refund_run show ?thesis by (intro conjI)
qed

subsection \<open>Authorization\<close>

lemma findById_user_id: "User_findById st uid = Some u \<Longrightarrow> user_id u = uid"
  by (auto simp: User_findById_def find_Some_iff)

lemma ensureCustomer_cases:
  obtains e st1 where "ensureCustomer ev st u = (Inl e, st1)" "payments st1 = payments st"
  | c st1 where "ensureCustomer ev st u = (Inr c, st1)" "payments st1 = payments st"
proof (cases "ensureCustomer ev st u")
  case (Pair r st1)
  from payments_ensureCustomer [OF Pair] have "payments st1 = payments st" .
  with Pair that show ?thesis by (cases r) auto
qed

lemma processFacePayment_Inr:
  assumes "processFacePayment ev st uid amt cur descr fd method = (Inr r, st')"
  shows "\<exists>intent. paymentIntents_create ev = Inr intent \<and> result_paymentIntent r = intent \<and>
     payments st' = payments st @ [result_payment r] \<and>
     amount (result_payment r) = Math_round (amt * 100) \<and>
     currency (result_payment r) = toLowerCase cur \<and>
     status (result_payment r) = ''pending'' \<and>
     stripePaymentIntentId (result_payment r) = object_id intent \<and>
     userId (result_payment r) = uid"
proof (cases "User_findById st uid")
  case None
  with assms show ?thesis by (simp add: processFacePayment_def)
next
  case (Some u)
  note uid = findById_user_id [OF Some]
  show ?thesis
  proof (cases rule: ensureCustomer_cases [of ev st u])
    case (1 e st1)
    with assms Some show ?thesis
      by (simp add: processFacePayment_def split: if_splits)
  next
    case (2 c st1)
    with assms Some uid show ?thesis
      by (auto simp: processFacePayment_def Let_def createPaymentIntent_def newPayment_def
          insert_payment_def split: if_splits sum.splits option.splits)
  qed
qed

lemma ensureCustomer_Inr:
  assumes "truthy (user_stripeCustomerId u) \<or>
      (\<exists>c. customers_create ev = Inr c) \<and> user_save ev = None"
  shows "\<exists>c st1. ensureCustomer ev st u = (Inr c, st1)"
  using assms
  by (auto simp: ensureCustomer_def truthy_def split: option.splits list.splits sum.splits)

lemma processFacePayment_returns:
  assumes "User_findById st uid = Some u" and "isActive u"
    and "truthy (user_stripeCustomerId u) \<or>
      (\<exists>c. customers_create ev = Inr c) \<and> user_save ev = None"
    and "\<exists>intent. paymentIntents_create ev = Inr intent" and "payment_save ev = None"
  shows "\<exists>r st'. processFacePayment ev st uid amt cur descr fd method = (Inr r, st')"
proof -
  from ensureCustomer_Inr [OF assms(3)] obtain c st1
    where "ensureCustomer ev st u = (Inr c, st1)" by blast
  with assms(1,2,4,5) show ?thesis
    by (auto simp: processFacePayment_def Let_def createPaymentIntent_def)
qed

text \<open>
  Claim C6. An authorization call for \<open>25.50\<close> \<open>usd\<close> that returns has added exactly one
  record to the payment store, at the end: the record it returns, with amount \<open>2550\<close>,
  currency \<open>usd\<close>, status \<open>pending\<close> and the intent id the gateway returned. The call
  returns whenever the user is active and the gateway and the stores answer.
\<close>
theorem processFacePayment_creates_pending_record:
  "(processFacePayment ev st uid (255 / 10) ''usd'' descr fd method = (Inr r, st') \<longrightarrow>
      (\<exists>intent. paymentIntents_create ev = Inr intent \<and> result_paymentIntent r = intent \<and>
         payments st' = payments st @ [result_payment r] \<and>
         amount (result_payment r) = 2550 \<and>
         currency (result_payment r) = ''usd'' \<and>
         status (result_payment r) = ''pending'' \<and>
         stripePaymentIntentId (result_payment r) = object_id intent \<and>
         userId (result_payment r) = uid)) \<and>
   (User_findById st uid = Some u \<and> isActive u \<and>
    (truthy (user_stripeCustomerId u) \<or>
       (\<exists>c. customers_create ev = Inr c) \<and> user_save ev = None) \<and>
    (\<exists>intent. paymentIntents_create ev = Inr intent) \<and> payment_save ev = None \<longrightarrow>
      (\<exists>r st'. processFacePayment ev st uid (255 / 10) ''usd'' descr fd method = (Inr r, st')))"
proof (intro conjI impI)
  assume "processFacePayment ev st uid (255 / 10) ''usd'' descr fd method = (Inr r, st')"
  from processFacePayment_Inr [OF this] show
    "\<exists>intent. paymentIntents_create ev = Inr intent \<and> result_paymentIntent r = intent \<and>
         payments st' = payments st @ [result_payment r] \<and>
         amount (result_payment r) = 2550 \<and>
         currency (result_payment r) = ''usd'' \<and>
         status (result_payment r) = ''pending'' \<and>
         stripePaymentIntentId (result_payment r) = object_id intent \<and>
         userId (result_payment r) = uid"
    by (simp add: usd_lower Math_round_def)
next
  assume "User_findById st uid = Some u \<and> isActive u \<and>
    (truthy (user_stripeCustomerId u) \<or>
       (\<exists>c. customers_create ev = Inr c) \<and> user_save ev = None) \<and>
    (\<exists>intent. paymentIntents_create ev = Inr intent) \<and> payment_save ev = None"
  then show "\<exists>r st'. processFacePayment ev st uid (255 / 10) ''usd'' descr fd method = (Inr r, st')"
    using processFacePayment_returns [of st uid u ev] by blast
qed

theorem processFacePayment_creates_pending_record_witness:
  "processFacePayment (answers 0 []) \<lparr>users = [alice], payments = []\<rparr> 1 (255 / 10) ''usd''
      ''Coffee'' evidence ''card'' =
     (Inr \<lparr>result_paymentIntent = intent_pi_1 ''requires_payment_method'',
           result_payment = coffee,
           result_user = \<lparr>summary_id = 1, summary_name = ''Alice'',
                          summary_email = ''alice@example.com''\<rparr>\<rparr>,
      shop) \<and>
   payments shop = [coffee] \<and> amount coffee = 2550 \<and> status coffee = ''pending'' \<and>
   stripePaymentIntentId coffee = ''pi_1''"
proof -
  let ?r = "\<lparr>result_paymentIntent = intent_pi_1 ''requires_payment_method'',
           result_payment = coffee,
           result_user = \<lparr>summary_id = 1, summary_name = ''Alice'',
                          summary_email = ''alice@example.com''\<rparr>\<rparr>"
  from processFacePayment_creates_pending_record [of "answers 0 []" "\<lparr>users = [alice], payments = []\<rparr>" 1 "''Coffee''" evidence
      "''card''" ?r shop] authorize_coffee [of 0 "[]"]
  have "\<exists>intent. paymentIntents_create (answers 0 []) = Inr intent \<and>
         payments shop = [] @ [coffee] \<and> amount coffee = 2550 \<and>
         status coffee = ''pending'' \<and> stripePaymentIntentId coffee = object_id intent"
    by simp
  then have "payments shop = [coffee] \<and> amount coffee = 2550 \<and> status coffee = ''pending'' \<and>
      stripePaymentIntentId coffee = ''pi_1''"
    by (auto simp: answers_def intent_pi_1_def)
  with authorize_coffee [of 0 "[]"] show ?thesis by (intro conjI) simp_all
qed

end
